theory Spec2Isabelle
  imports Main "HOL-Library.AList"
begin

section \<open>DRAIN provider: voucher validation, channel ledger and claiming\<close>

text \<open>
  A shallow embedding of \<^verbatim>\<open>drain.ts\<close> (class \<^verbatim>\<open>DrainService\<close>), \<^verbatim>\<open>storage.ts\<close>
  (class \<^verbatim>\<open>VoucherStorage\<close>), the constants of \<^verbatim>\<open>constants.ts\<close> and the record types of
  \<^verbatim>\<open>types.ts\<close>.

  Conventions.
  \<^item> A JavaScript \<^verbatim>\<open>bigint\<close> is an \<^typ>\<open>int\<close>. A \<^verbatim>\<open>number\<close> holding a millisecond or second
    time stamp is an \<^typ>\<open>int\<close> as well (all the values the code stores in such fields are
    integers; the model is exact below \<open>2^53\<close>).
  \<^item> A thrown exception is a value of type \<open>exn\<close>; a call that may throw returns
    \<open>exn + 'a\<close> with \<open>Inl\<close> for the exception.
  \<^item> The blockchain client, the signature verifier and the clock are outside the
    repository. They are passed as a record of functions (\<open>World\<close>), one answer per call.
  \<^item> A field name shared by several interfaces gets a prefix: \<open>vh_\<close> for
    \<^verbatim>\<open>VoucherHeader\<close>, \<open>sv_\<close> for \<^verbatim>\<open>StoredVoucher\<close>, \<open>cs_\<close> for \<^verbatim>\<open>ChannelState\<close>, \<open>cd_\<close> for
    the tuple returned by the contract's \<^verbatim>\<open>getChannel\<close>.
\<close>

subsection \<open>Strings and big integers of the host language\<close>

type_synonym Hash = string
type_synonym Hex = string
type_synonym Address = string

datatype exn = Error string | NonError

text \<open>\<^verbatim>\<open>String.prototype.toLowerCase\<close> on ASCII text (addresses are hexadecimal).\<close>

definition lowerChar :: "char \<Rightarrow> char" where
  "lowerChar c =
     (let n = (of_char c :: nat) in if 65 \<le> n \<and> n \<le> 90 then char_of (n + 32) else c)"

definition toLowerCase :: "string \<Rightarrow> string" where
  "toLowerCase s = map lowerChar s"

text \<open>
  \<^verbatim>\<open>BigInt(s)\<close> on a string follows the language's StringToBigInt: surrounding white
  space is dropped, the empty string is \<open>0\<close>, then either a decimal numeral with an
  optional sign or an unsigned numeral with prefix \<^verbatim>\<open>0x\<close>, \<^verbatim>\<open>0o\<close> or \<^verbatim>\<open>0b\<close>; anything else
  throws a SyntaxError. Strings are byte lists here, so only the ASCII white space
  characters are recognised.
\<close>

definition isStrWhiteSpace :: "char \<Rightarrow> bool" where
  "isStrWhiteSpace c = ((of_char c :: nat) \<in> {9, 10, 11, 12, 13, 32})"

definition trimString :: "string \<Rightarrow> string" where
  "trimString s = rev (dropWhile isStrWhiteSpace (rev (dropWhile isStrWhiteSpace s)))"

definition digitVal :: "char \<Rightarrow> nat option" where
  "digitVal c =
     (let n = (of_char c :: nat) in
      if 48 \<le> n \<and> n \<le> 57 then Some (n - 48)
      else if 97 \<le> n \<and> n \<le> 102 then Some (n - 87)
      else if 65 \<le> n \<and> n \<le> 70 then Some (n - 55)
      else None)"

fun digitsValue :: "nat \<Rightarrow> nat \<Rightarrow> string \<Rightarrow> nat option" where
  "digitsValue b acc [] = Some acc"
| "digitsValue b acc (c # cs) =
     (case digitVal c of
        None \<Rightarrow> None
      | Some d \<Rightarrow> if d < b then digitsValue b (acc * b + d) cs else None)"

definition parseDigits :: "nat \<Rightarrow> string \<Rightarrow> nat option" where
  "parseDigits b s = (if s = [] then None else digitsValue b 0 s)"

definition StringToBigInt :: "string \<Rightarrow> int option" where
  "StringToBigInt str =
     (case trimString str of
        [] \<Rightarrow> Some 0
      | c # r \<Rightarrow>
          if c = CHR ''+'' then map_option int (parseDigits 10 r)
          else if c = CHR ''-'' then map_option (\<lambda>n. - int n) (parseDigits 10 r)
          else if c = CHR ''0'' \<and> r \<noteq> [] \<and> hd r \<in> {CHR ''x'', CHR ''X''}
            then map_option int (parseDigits 16 (tl r))
          else if c = CHR ''0'' \<and> r \<noteq> [] \<and> hd r \<in> {CHR ''o'', CHR ''O''}
            then map_option int (parseDigits 8 (tl r))
          else if c = CHR ''0'' \<and> r \<noteq> [] \<and> hd r \<in> {CHR ''b'', CHR ''B''}
            then map_option int (parseDigits 2 (tl r))
          else map_option int (parseDigits 10 (c # r)))"

definition BigInt :: "string \<Rightarrow> exn + int" where
  "BigInt s =
     (case StringToBigInt s of
        None \<Rightarrow> Inl (Error (''Cannot convert '' @ s @ '' to a BigInt''))
      | Some n \<Rightarrow> Inr n)"

text \<open>\<^verbatim>\<open>bigint.toString()\<close>: the decimal numeral, with a minus sign when negative.\<close>

definition digitChar :: "nat \<Rightarrow> char" where
  "digitChar d = char_of (48 + d)"

function natToDigits :: "nat \<Rightarrow> string" where
  "natToDigits n = (if n < 10 then [digitChar n] else natToDigits (n div 10) @ [digitChar (n mod 10)])"
  by pat_completeness auto
termination
  by (relation "measure id") auto

declare natToDigits.simps [simp del]

definition toString :: "int \<Rightarrow> string" where
  "toString n = (if n < 0 then CHR ''-'' # natToDigits (nat (- n)) else natToDigits (nat n))"

text \<open>\<^verbatim>\<open>Number(b)\<close> of a bigint time stamp.\<close>

definition Number :: "int \<Rightarrow> int" where
  "Number b = b"

subsection \<open>The record types of \<^verbatim>\<open>types.ts\<close>\<close>

record VoucherHeader =
  vh_channelId :: Hash
  vh_amount :: string
  vh_nonce :: string
  vh_signature :: Hex

record StoredVoucher =
  sv_channelId :: Hash
  sv_amount :: int
  sv_nonce :: int
  sv_signature :: Hex
  sv_consumer :: string
  sv_receivedAt :: int
  sv_claimed :: bool
  sv_claimedAt :: "int option"
  sv_claimTxHash :: "Hash option"

text \<open>
  \<^verbatim>\<open>ChannelState.lastVoucher\<close> is an object reference. \<^verbatim>\<open>DrainService.storeVoucher\<close> puts
  the very object it pushes onto \<^verbatim>\<open>data.vouchers\<close> there, so until the next restart the
  field aliases an entry of the voucher array (and sees \<^verbatim>\<open>markClaimed\<close>'s in-place
  writes); \<^verbatim>\<open>load\<close> builds a separate object. The voucher array is append-only, so an
  index identifies a shared object: \<open>Shared i\<close> is the object at position \<open>i\<close> of the
  array, \<open>Own v\<close> an object of the channel state's own.
\<close>

datatype VoucherRef = Shared nat | Own StoredVoucher

record ChannelState =
  cs_channelId :: Hash
  cs_consumer :: string
  cs_deposit :: int
  cs_totalCharged :: int
  cs_expiry :: int
  cs_lastVoucher :: "VoucherRef option"
  cs_createdAt :: int
  cs_lastActivityAt :: int

text \<open>The tuple returned by the contract's \<^verbatim>\<open>getChannel\<close> (see \<^verbatim>\<open>DRAIN_CHANNEL_ABI\<close>).\<close>

record ChannelData =
  cd_consumer :: Address
  cd_provider :: Address
  cd_deposit :: int
  cd_claimed :: int
  cd_expiry :: int

subsection \<open>\<^verbatim>\<open>storage.ts\<close>: the voucher store\<close>

text \<open>
  \<^verbatim>\<open>channels\<close> is a plain object used as a dictionary: its keys (channel ids, which are
  not array indices) stay in insertion order, and assigning to an existing key keeps
  its place. It is an association list read with \<^const>\<open>map_of\<close> and written with
  \<^const>\<open>AList.update\<close>.
\<close>

record StorageData =
  vouchers :: "StoredVoucher list"
  channels :: "(Hash \<times> ChannelState) list"
  totalEarned :: string
  totalClaimed :: string

text \<open>
  The object a \<^verbatim>\<open>lastVoucher\<close> reference points to. The array only grows, so a shared
  reference always points into it; for an index out of range, which the code cannot
  produce, \<open>deref\<close> gives \<open>None\<close>.
\<close>

definition deref :: "StoredVoucher list \<Rightarrow> VoucherRef \<Rightarrow> StoredVoucher option" where
  "deref vs r =
     (case r of
        Shared i \<Rightarrow> if i < length vs then Some (vs ! i) else None
      | Own v \<Rightarrow> Some v)"

definition lastVoucherOf :: "StorageData \<Rightarrow> ChannelState \<Rightarrow> StoredVoucher option" where
  "lastVoucherOf d ch =
     (case cs_lastVoucher ch of None \<Rightarrow> None | Some r \<Rightarrow> deref (vouchers d) r)"

text \<open>
  The document \<^verbatim>\<open>save\<close> hands to \<^verbatim>\<open>JSON.stringify\<close>: the same objects with every bigint
  replaced by its decimal string. \<^verbatim>\<open>JSON.stringify\<close> followed by \<^verbatim>\<open>JSON.parse\<close> gives back
  strings, integers, booleans and absent fields as they were, so the file content is
  modelled as this document.
\<close>

record SerVoucher =
  ser_channelId :: Hash
  ser_amount :: string
  ser_nonce :: string
  ser_signature :: Hex
  ser_consumer :: string
  ser_receivedAt :: int
  ser_claimed :: bool
  ser_claimedAt :: "int option"
  ser_claimTxHash :: "Hash option"

record SerChannel =
  sc_channelId :: Hash
  sc_consumer :: string
  sc_deposit :: string
  sc_totalCharged :: string
  sc_expiry :: int
  sc_lastVoucher :: "SerVoucher option"
  sc_createdAt :: int
  sc_lastActivityAt :: int

record SerData =
  sd_vouchers :: "SerVoucher list"
  sd_channels :: "(Hash \<times> SerChannel) list"
  sd_totalEarned :: string
  sd_totalClaimed :: string

text \<open>
  An instance of \<^verbatim>\<open>VoucherStorage\<close>: the in-memory \<^verbatim>\<open>data\<close> and the content of the file
  at \<^verbatim>\<open>filePath\<close> (\<open>None\<close> when the file does not exist or holds no document of this
  shape). File-system calls are taken to succeed.
\<close>

record VoucherStorage =
  data :: StorageData
  fileContent :: "SerData option"

definition emptyData :: StorageData where
  "emptyData = \<lparr>vouchers = [], channels = [], totalEarned = ''0'', totalClaimed = ''0''\<rparr>"

definition serVoucher :: "StoredVoucher \<Rightarrow> SerVoucher" where
  "serVoucher v =
     \<lparr>ser_channelId = sv_channelId v, ser_amount = toString (sv_amount v),
      ser_nonce = toString (sv_nonce v), ser_signature = sv_signature v,
      ser_consumer = sv_consumer v, ser_receivedAt = sv_receivedAt v,
      ser_claimed = sv_claimed v, ser_claimedAt = sv_claimedAt v,
      ser_claimTxHash = sv_claimTxHash v\<rparr>"

definition serChannel :: "StoredVoucher list \<Rightarrow> ChannelState \<Rightarrow> SerChannel" where
  "serChannel vs ch =
     \<lparr>sc_channelId = cs_channelId ch, sc_consumer = cs_consumer ch,
      sc_deposit = toString (cs_deposit ch), sc_totalCharged = toString (cs_totalCharged ch),
      sc_expiry = cs_expiry ch,
      sc_lastVoucher =
        (case cs_lastVoucher ch of
           None \<Rightarrow> None
         | Some r \<Rightarrow> map_option serVoucher (deref vs r)),
      sc_createdAt = cs_createdAt ch, sc_lastActivityAt = cs_lastActivityAt ch\<rparr>"

definition serializable :: "StorageData \<Rightarrow> SerData" where
  "serializable d =
     \<lparr>sd_vouchers = map serVoucher (vouchers d),
      sd_channels = map (\<lambda>(channelId, ch). (channelId, serChannel (vouchers d) ch)) (channels d),
      sd_totalEarned = totalEarned d, sd_totalClaimed = totalClaimed d\<rparr>"

definition save :: "VoucherStorage \<Rightarrow> VoucherStorage" where
  "save st = st\<lparr>fileContent := Some (serializable (data st))\<rparr>"

text \<open>
  \<^verbatim>\<open>load\<close>. Any exception inside the \<^verbatim>\<open>try\<close> block (here: a \<^verbatim>\<open>BigInt\<close> conversion that
  fails) makes it start from the empty store.
\<close>

definition loadVoucher :: "SerVoucher \<Rightarrow> StoredVoucher option" where
  "loadVoucher v =
     (case BigInt (ser_amount v) of
        Inl e \<Rightarrow> None
      | Inr amount \<Rightarrow>
          (case BigInt (ser_nonce v) of
             Inl e \<Rightarrow> None
           | Inr nonce \<Rightarrow>
               Some \<lparr>sv_channelId = ser_channelId v, sv_amount = amount, sv_nonce = nonce,
                     sv_signature = ser_signature v, sv_consumer = ser_consumer v,
                     sv_receivedAt = ser_receivedAt v, sv_claimed = ser_claimed v,
                     sv_claimedAt = ser_claimedAt v, sv_claimTxHash = ser_claimTxHash v\<rparr>))"

fun loadVouchers :: "SerVoucher list \<Rightarrow> StoredVoucher list option" where
  "loadVouchers [] = Some []"
| "loadVouchers (v # vs) =
     (case loadVoucher v of
        None \<Rightarrow> None
      | Some v' \<Rightarrow> (case loadVouchers vs of None \<Rightarrow> None | Some vs' \<Rightarrow> Some (v' # vs')))"

definition loadChannel :: "SerChannel \<Rightarrow> ChannelState option" where
  "loadChannel ch =
     (case BigInt (sc_deposit ch) of
        Inl e \<Rightarrow> None
      | Inr deposit \<Rightarrow>
          (case BigInt (sc_totalCharged ch) of
             Inl e \<Rightarrow> None
           | Inr totalCharged \<Rightarrow>
               (case sc_lastVoucher ch of
                  None \<Rightarrow>
                    Some \<lparr>cs_channelId = sc_channelId ch, cs_consumer = sc_consumer ch,
                          cs_deposit = deposit, cs_totalCharged = totalCharged,
                          cs_expiry = sc_expiry ch, cs_lastVoucher = None,
                          cs_createdAt = sc_createdAt ch,
                          cs_lastActivityAt = sc_lastActivityAt ch\<rparr>
                | Some lv \<Rightarrow>
                    (case loadVoucher lv of
                       None \<Rightarrow> None
                     | Some lv' \<Rightarrow>
                         Some \<lparr>cs_channelId = sc_channelId ch, cs_consumer = sc_consumer ch,
                               cs_deposit = deposit, cs_totalCharged = totalCharged,
                               cs_expiry = sc_expiry ch, cs_lastVoucher = Some (Own lv'),
                               cs_createdAt = sc_createdAt ch,
                               cs_lastActivityAt = sc_lastActivityAt ch\<rparr>))))"

fun loadChannels :: "(Hash \<times> SerChannel) list \<Rightarrow> (Hash \<times> ChannelState) list option" where
  "loadChannels [] = Some []"
| "loadChannels ((channelId, ch) # rest) =
     (case loadChannel ch of
        None \<Rightarrow> None
      | Some ch' \<Rightarrow>
          (case loadChannels rest of None \<Rightarrow> None | Some rest' \<Rightarrow> Some ((channelId, ch') # rest')))"

definition load :: "SerData option \<Rightarrow> StorageData" where
  "load f =
     (case f of
        None \<Rightarrow> emptyData
      | Some parsed \<Rightarrow>
          (case loadVouchers (sd_vouchers parsed) of
             None \<Rightarrow> emptyData
           | Some vs \<Rightarrow>
               (case loadChannels (sd_channels parsed) of
                  None \<Rightarrow> emptyData
                | Some chs \<Rightarrow>
                    \<lparr>vouchers = vs, channels = chs,
                     totalEarned = sd_totalEarned parsed,
                     totalClaimed = sd_totalClaimed parsed\<rparr>)))"

text \<open>The constructor: \<^verbatim>\<open>this.data = this.load()\<close>.\<close>

definition newVoucherStorage :: "SerData option \<Rightarrow> VoucherStorage" where
  "newVoucherStorage f = \<lparr>data = load f, fileContent = f\<rparr>"

definition storage_storeVoucher :: "VoucherStorage \<Rightarrow> StoredVoucher \<Rightarrow> VoucherStorage" where
  "storage_storeVoucher st voucher =
     save (st\<lparr>data := (data st)\<lparr>vouchers := vouchers (data st) @ [voucher]\<rparr>\<rparr>)"

definition getChannel :: "VoucherStorage \<Rightarrow> Hash \<Rightarrow> ChannelState option" where
  "getChannel st channelId = map_of (channels (data st)) channelId"

definition updateChannel :: "VoucherStorage \<Rightarrow> Hash \<Rightarrow> ChannelState \<Rightarrow> VoucherStorage" where
  "updateChannel st channelId state =
     save (st\<lparr>data := (data st)\<lparr>channels := AList.update channelId state (channels (data st))\<rparr>\<rparr>)"

definition getUnclaimedVouchers :: "VoucherStorage \<Rightarrow> StoredVoucher list" where
  "getUnclaimedVouchers st = filter (\<lambda>v. \<not> sv_claimed v) (vouchers (data st))"

text \<open>
  \<^verbatim>\<open>getHighestVoucherPerChannel\<close> builds a \<^verbatim>\<open>Map\<close>, which keeps its keys in insertion
  order and keeps a key's position when its value is replaced: an association list
  with \<^const>\<open>AList.update\<close>.
\<close>

definition highestStep ::
  "(Hash \<times> StoredVoucher) list \<Rightarrow> StoredVoucher \<Rightarrow> (Hash \<times> StoredVoucher) list" where
  "highestStep highest voucher =
     (if sv_claimed voucher then highest
      else (case map_of highest (sv_channelId voucher) of
              None \<Rightarrow> AList.update (sv_channelId voucher) voucher highest
            | Some existing \<Rightarrow>
                if sv_amount voucher > sv_amount existing
                then AList.update (sv_channelId voucher) voucher highest
                else highest))"

definition getHighestVoucherPerChannel :: "VoucherStorage \<Rightarrow> (Hash \<times> StoredVoucher) list" where
  "getHighestVoucherPerChannel st = foldl highestStep [] (vouchers (data st))"

text \<open>
  \<^verbatim>\<open>markClaimed\<close> reads the clock once for every voucher it marks; \<open>nowAt i\<close> is what
  \<^verbatim>\<open>Date.now()\<close> returns when the loop is at position \<open>i\<close> of the array.
\<close>

fun markLoop :: "Hash \<Rightarrow> Hash \<Rightarrow> (nat \<Rightarrow> int) \<Rightarrow> nat \<Rightarrow> StoredVoucher list \<Rightarrow> StoredVoucher list" where
  "markLoop channelId txHash nowAt i [] = []"
| "markLoop channelId txHash nowAt i (v # vs) =
     (if sv_channelId v = channelId \<and> \<not> sv_claimed v
      then v\<lparr>sv_claimed := True, sv_claimedAt := Some (nowAt i), sv_claimTxHash := Some txHash\<rparr>
      else v) # markLoop channelId txHash nowAt (Suc i) vs"

definition markClaimed :: "VoucherStorage \<Rightarrow> Hash \<Rightarrow> Hash \<Rightarrow> (nat \<Rightarrow> int) \<Rightarrow> VoucherStorage" where
  "markClaimed st channelId txHash nowAt =
     save (st\<lparr>data := (data st)\<lparr>vouchers := markLoop channelId txHash nowAt 0 (vouchers (data st))\<rparr>\<rparr>)"

definition getTotalUnclaimed :: "VoucherStorage \<Rightarrow> int" where
  "getTotalUnclaimed st = foldl (\<lambda>total v. total + sv_amount v) 0 (map snd (getHighestVoucherPerChannel st))"

subsection \<open>\<^verbatim>\<open>constants.ts\<close>\<close>

definition PERMANENT_CLAIM_ERRORS :: "string list" where
  "PERMANENT_CLAIM_ERRORS =
     [''InvalidAmount'', ''ChannelNotFound'', ''InvalidSignature'', ''NotProvider'', ''NotExpired'']"

record EIP712Domain =
  dom_name :: string
  dom_version :: string
  dom_chainId :: int
  dom_verifyingContract :: Address

definition EIP712_DOMAIN_name :: string where
  "EIP712_DOMAIN_name = ''DrainChannel''"

definition EIP712_DOMAIN_version :: string where
  "EIP712_DOMAIN_version = ''1''"

definition zeroAddress :: Address where
  "zeroAddress = ''0x0000000000000000000000000000000000000000''"

subsection \<open>The outside world\<close>

text \<open>
  The error object a failed \<^verbatim>\<open>writeContract\<close> throws, reduced to the four properties
  \<^verbatim>\<open>handleClaimError\<close> reads: \<^verbatim>\<open>cause.data.errorName\<close>, \<^verbatim>\<open>cause.reason\<close>, \<^verbatim>\<open>shortMessage\<close>
  and \<^verbatim>\<open>message\<close> (\<open>None\<close> where the optional chain ends in \<^verbatim>\<open>undefined\<close>).
\<close>

record ClaimError =
  ce_errorName :: "string option"
  ce_reason :: "string option"
  ce_shortMessage :: "string option"
  ce_message :: "string option"

text \<open>
  One answer for each call the service makes: \<open>readChannel\<close> and \<open>getBalance\<close> are
  \<^verbatim>\<open>publicClient.readContract\<close> with \<^verbatim>\<open>getChannel\<close> and \<^verbatim>\<open>getBalance\<close>, \<open>writeClaim\<close> is
  \<^verbatim>\<open>walletClient.writeContract\<close> with \<^verbatim>\<open>claim\<close>, \<open>verifyTypedData\<close> is viem's function of
  that name (signer, domain, then the message's channelId, amount and nonce, then the
  signature). \<open>dateNow c i\<close> is the clock reading \<^verbatim>\<open>Date.now()\<close> when \<^verbatim>\<open>markClaimed\<close>,
  called for channel \<open>c\<close>, is at position \<open>i\<close> of the voucher array.
\<close>

record World =
  readChannel :: "Hash \<Rightarrow> exn + ChannelData"
  getBalance :: "Hash \<Rightarrow> exn + int"
  verifyTypedData :: "Address \<Rightarrow> EIP712Domain \<Rightarrow> Hash \<Rightarrow> int \<Rightarrow> int \<Rightarrow> Hex \<Rightarrow> exn + bool"
  writeClaim :: "Hash \<Rightarrow> int \<Rightarrow> int \<Rightarrow> Hex \<Rightarrow> ClaimError + Hash"
  dateNow :: "Hash \<Rightarrow> nat \<Rightarrow> int"

subsection \<open>\<^verbatim>\<open>drain.ts\<close>: class \<^verbatim>\<open>DrainService\<close>\<close>

text \<open>
  The fields of the service that the modelled methods read: of \<^verbatim>\<open>config\<close> the chain id
  and the claim threshold, the address of \<^verbatim>\<open>account\<close>, and \<^verbatim>\<open>contractAddress\<close>. The
  \<^verbatim>\<open>storage\<close> field is passed to each method and returned by it.
\<close>

record DrainService =
  chainId :: int
  claimThreshold :: int
  account_address :: Address
  contractAddress :: Address

record ValidationResult =
  vr_valid :: bool
  vr_error :: "string option"
  vr_channel :: "ChannelState option"
  vr_newTotal :: "int option"

text \<open>
  \<open>reject\<close> is \<^verbatim>\<open>{ valid: false, error, channel }\<close>; \<open>caught\<close> is the object built in the
  \<^verbatim>\<open>catch\<close> block of \<^verbatim>\<open>validateVoucher\<close>.
\<close>

definition reject :: "string \<Rightarrow> ChannelState option \<Rightarrow> ValidationResult" where
  "reject e ch = \<lparr>vr_valid = False, vr_error = Some e, vr_channel = ch, vr_newTotal = None\<rparr>"

definition caught :: "exn \<Rightarrow> ValidationResult" where
  "caught e =
     \<lparr>vr_valid = False,
      vr_error = Some (case e of Error m \<Rightarrow> m | NonError \<Rightarrow> ''validation_error''),
      vr_channel = None, vr_newTotal = None\<rparr>"

text \<open>
  Lines 109 to 123 of \<^verbatim>\<open>validateVoucher\<close>: the cached channel state, or a fresh one
  hydrated from the chain with \<^verbatim>\<open>totalCharged = 0n\<close>. \<^verbatim>\<open>getChannel\<close> returns the stored
  object itself, so the assignment to \<^verbatim>\<open>channelState.expiry\<close> (taken when the stored
  expiry is falsy) changes the store's in-memory data; the file is not written.
\<close>

definition resolveChannelState ::
  "VoucherStorage \<Rightarrow> VoucherHeader \<Rightarrow> ChannelData \<Rightarrow> int \<Rightarrow> int \<Rightarrow> ChannelState \<times> VoucherStorage" where
  "resolveChannelState st voucher channelData now1 now2 =
     (case getChannel st (vh_channelId voucher) of
        None \<Rightarrow>
          (\<lparr>cs_channelId = vh_channelId voucher, cs_consumer = cd_consumer channelData,
            cs_deposit = cd_deposit channelData, cs_totalCharged = 0,
            cs_expiry = Number (cd_expiry channelData), cs_lastVoucher = None,
            cs_createdAt = now1, cs_lastActivityAt = now2\<rparr>, st)
      | Some channelState \<Rightarrow>
          if cs_expiry channelState = 0
          then (channelState\<lparr>cs_expiry := Number (cd_expiry channelData)\<rparr>,
                st\<lparr>data := (data st)\<lparr>channels :=
                  AList.update (vh_channelId voucher)
                    (channelState\<lparr>cs_expiry := Number (cd_expiry channelData)\<rparr>)
                    (channels (data st))\<rparr>\<rparr>)
          else (channelState, st))"

definition validateVoucher ::
  "DrainService \<Rightarrow> World \<Rightarrow> VoucherStorage \<Rightarrow> VoucherHeader \<Rightarrow> int \<Rightarrow> int \<Rightarrow> int
     \<Rightarrow> ValidationResult \<times> VoucherStorage" where
  "validateVoucher svc w st voucher requiredAmount now1 now2 =
     (case BigInt (vh_amount voucher) of
        Inl e \<Rightarrow> (caught e, st)
      | Inr amount \<Rightarrow>
     (case BigInt (vh_nonce voucher) of
        Inl e \<Rightarrow> (caught e, st)
      | Inr nonce \<Rightarrow>
     (case readChannel w (vh_channelId voucher) of
        Inl e \<Rightarrow> (caught e, st)
      | Inr channelData \<Rightarrow>
          if cd_consumer channelData = zeroAddress
          then (reject ''channel_not_found'' None, st)
          else if toLowerCase (cd_provider channelData) \<noteq> toLowerCase (account_address svc)
          then (reject ''wrong_provider'' None, st)
          else
            (case resolveChannelState st voucher channelData now1 now2 of
               (channelState, st1) \<Rightarrow>
                 let previousTotal = cs_totalCharged channelState;
                     expectedTotal = previousTotal + requiredAmount
                 in
                 if amount < expectedTotal
                 then (reject ''insufficient_funds'' (Some channelState), st1)
                 else if amount > cd_deposit channelData
                 then (reject ''exceeds_deposit'' (Some channelState), st1)
                 else if (case lastVoucherOf (data st1) channelState of
                            None \<Rightarrow> False
                          | Some lastVoucher \<Rightarrow> nonce \<le> sv_nonce lastVoucher)
                 then (reject ''invalid_nonce'' (Some channelState), st1)
                 else
                   (case verifyTypedData w (cd_consumer channelData)
                           \<lparr>dom_name = EIP712_DOMAIN_name, dom_version = EIP712_DOMAIN_version,
                            dom_chainId = chainId svc,
                            dom_verifyingContract = contractAddress svc\<rparr>
                           (vh_channelId voucher) amount nonce (vh_signature voucher) of
                      Inl e \<Rightarrow> (caught e, st1)
                    | Inr isValid \<Rightarrow>
                        if \<not> isValid then (reject ''invalid_signature'' None, st1)
                        else (\<lparr>vr_valid = True, vr_error = None,
                               vr_channel = Some channelState,
                               vr_newTotal = Some amount\<rparr>, st1))))))"

text \<open>
  \<^verbatim>\<open>DrainService.storeVoucher\<close>, the commit step. \<open>now1\<close> and \<open>now2\<close> are its two clock
  readings. The new \<^verbatim>\<open>lastVoucher\<close> is the object pushed onto the voucher array, which
  lands at index \<open>length (vouchers (data st))\<close>.
\<close>

definition storeVoucher ::
  "VoucherStorage \<Rightarrow> VoucherHeader \<Rightarrow> ChannelState \<Rightarrow> int \<Rightarrow> int \<Rightarrow> int \<Rightarrow> exn + VoucherStorage" where
  "storeVoucher st voucher channelState cost now1 now2 =
     (case BigInt (vh_amount voucher) of
        Inl e \<Rightarrow> Inl e
      | Inr amount \<Rightarrow>
     (case BigInt (vh_nonce voucher) of
        Inl e \<Rightarrow> Inl e
      | Inr nonce \<Rightarrow>
          let storedVoucher =
                \<lparr>sv_channelId = vh_channelId voucher, sv_amount = amount, sv_nonce = nonce,
                 sv_signature = vh_signature voucher, sv_consumer = cs_consumer channelState,
                 sv_receivedAt = now1, sv_claimed = False, sv_claimedAt = None,
                 sv_claimTxHash = None\<rparr>;
              channelState' =
                channelState\<lparr>cs_totalCharged := cs_totalCharged channelState + cost,
                             cs_lastVoucher := Some (Shared (length (vouchers (data st)))),
                             cs_lastActivityAt := now2\<rparr>
          in Inr (updateChannel (storage_storeVoucher st storedVoucher)
                    (vh_channelId voucher) channelState')))"

text \<open>
  \<^verbatim>\<open>handleClaimError\<close>. \<open>claimErrorName\<close> is
  \<^verbatim>\<open>error?.cause?.data?.errorName || error?.cause?.reason || undefined\<close>, where the empty
  string is falsy.
\<close>

definition truthy :: "string option \<Rightarrow> bool" where
  "truthy x = (case x of None \<Rightarrow> False | Some s \<Rightarrow> s \<noteq> [])"

definition claimErrorName :: "ClaimError \<Rightarrow> string option" where
  "claimErrorName e =
     (if truthy (ce_errorName e) then ce_errorName e
      else if truthy (ce_reason e) then ce_reason e
      else None)"

definition isPermanent :: "ClaimError \<Rightarrow> bool" where
  "isPermanent e =
     (case claimErrorName e of
        None \<Rightarrow> False
      | Some errorName \<Rightarrow> errorName \<in> set PERMANENT_CLAIM_ERRORS)"

definition handleClaimError ::
  "VoucherStorage \<Rightarrow> string \<Rightarrow> Hash \<Rightarrow> ClaimError \<Rightarrow> (nat \<Rightarrow> int) \<Rightarrow> VoucherStorage" where
  "handleClaimError st context channelId e nowAt =
     (if isPermanent e then markClaimed st channelId ''0x0'' nowAt else st)"

text \<open>
  The state of one claim pass: the store, the returned \<^verbatim>\<open>txHashes\<close>, and the arguments
  of every \<^verbatim>\<open>writeContract\<close> call made so far (a claim transaction that was submitted,
  whether or not it went through).
\<close>

record ClaimRun =
  cr_storage :: VoucherStorage
  cr_txHashes :: "Hash list"
  cr_submitted :: "(Hash \<times> int \<times> int \<times> Hex) list"

text \<open>
  The two \<^verbatim>\<open>try\<close> blocks that end the loop body of \<^verbatim>\<open>claimPayments\<close> and, word for
  word but for the log prefix, of \<^verbatim>\<open>claimExpiring\<close>: the balance pre-check, then the
  claim transaction.
\<close>

definition claimChannel :: "string \<Rightarrow> World \<Rightarrow> ClaimRun \<Rightarrow> Hash \<Rightarrow> StoredVoucher \<Rightarrow> ClaimRun" where
  "claimChannel context w run channelId voucher =
     (if getBalance w (sv_channelId voucher) = Inr 0
      then run\<lparr>cr_storage := markClaimed (cr_storage run) channelId ''0x0'' (dateNow w channelId)\<rparr>
      else
        (case writeClaim w (sv_channelId voucher) (sv_amount voucher) (sv_nonce voucher)
                (sv_signature voucher) of
           Inr hash \<Rightarrow>
             \<lparr>cr_storage = markClaimed (cr_storage run) channelId hash (dateNow w channelId),
              cr_txHashes = cr_txHashes run @ [hash],
              cr_submitted = cr_submitted run @
                [(sv_channelId voucher, sv_amount voucher, sv_nonce voucher, sv_signature voucher)]\<rparr>
         | Inl e \<Rightarrow>
             \<lparr>cr_storage = handleClaimError (cr_storage run) context channelId e (dateNow w channelId),
              cr_txHashes = cr_txHashes run,
              cr_submitted = cr_submitted run @
                [(sv_channelId voucher, sv_amount voucher, sv_nonce voucher, sv_signature voucher)]\<rparr>))"

definition claimPaymentsStep :: "DrainService \<Rightarrow> World \<Rightarrow> bool \<Rightarrow> ClaimRun \<Rightarrow> Hash \<times> StoredVoucher \<Rightarrow> ClaimRun" where
  "claimPaymentsStep svc w forceAll run entry =
     (case entry of (channelId, voucher) \<Rightarrow>
        if \<not> forceAll \<and> sv_amount voucher < claimThreshold svc then run
        else claimChannel ''claim'' w run channelId voucher)"

definition claimPayments :: "DrainService \<Rightarrow> World \<Rightarrow> VoucherStorage \<Rightarrow> bool \<Rightarrow> ClaimRun" where
  "claimPayments svc w st forceAll =
     foldl (claimPaymentsStep svc w forceAll)
       \<lparr>cr_storage = st, cr_txHashes = [], cr_submitted = []\<rparr>
       (getHighestVoucherPerChannel st)"

text \<open>
  \<^verbatim>\<open>claimExpiring\<close>; \<open>nowMs\<close> is the reading of \<^verbatim>\<open>Date.now()\<close> at its start, so that
  \<^verbatim>\<open>now\<close> is \<open>nowMs div 1000\<close> (\<^verbatim>\<open>Math.floor\<close>).
\<close>

definition claimExpiringStep :: "World \<Rightarrow> int \<Rightarrow> int \<Rightarrow> ClaimRun \<Rightarrow> Hash \<times> StoredVoucher \<Rightarrow> ClaimRun" where
  "claimExpiringStep w bufferSeconds now run entry =
     (case entry of (channelId, voucher) \<Rightarrow>
        (case getChannel (cr_storage run) channelId of
           None \<Rightarrow> run
         | Some channel \<Rightarrow>
             if cs_expiry channel = 0 then run
             else
               let timeLeft = cs_expiry channel - now in
               if timeLeft > bufferSeconds then run
               else if sv_amount voucher \<le> 0 then run
               else claimChannel ''auto-claim'' w run channelId voucher))"

definition claimExpiring :: "DrainService \<Rightarrow> World \<Rightarrow> VoucherStorage \<Rightarrow> int \<Rightarrow> int \<Rightarrow> ClaimRun" where
  "claimExpiring svc w st bufferSeconds nowMs =
     foldl (claimExpiringStep w bufferSeconds (nowMs div 1000))
       \<lparr>cr_storage = st, cr_txHashes = [], cr_submitted = []\<rparr>
       (getHighestVoucherPerChannel st)"

subsection \<open>The request handler: validate, do the paid work, commit\<close>

text \<open>
  What the cached ledger says about a channel: its \<^verbatim>\<open>totalCharged\<close> (\<open>0\<close> for a channel
  not seen yet, which \<^verbatim>\<open>validateVoucher\<close> hydrates with \<^verbatim>\<open>totalCharged = 0n\<close>) and its
  \<^verbatim>\<open>lastVoucher\<close>.
\<close>

definition cachedTotal :: "VoucherStorage \<Rightarrow> Hash \<Rightarrow> int" where
  "cachedTotal st channelId =
     (case getChannel st channelId of None \<Rightarrow> 0 | Some ch \<Rightarrow> cs_totalCharged ch)"

definition cachedLastVoucher :: "VoucherStorage \<Rightarrow> Hash \<Rightarrow> StoredVoucher option" where
  "cachedLastVoucher st channelId =
     (case getChannel st channelId of None \<Rightarrow> None | Some ch \<Rightarrow> lastVoucherOf (data st) ch)"

text \<open>
  One paid request as the HTTP handlers of \<^verbatim>\<open>index.ts\<close> run it: \<^verbatim>\<open>validateVoucher\<close> with
  the request's cost, then (the paid work having succeeded) \<^verbatim>\<open>storeVoucher\<close> with
  \<^verbatim>\<open>validation.channel\<close> and the same cost. \<open>rq_clock rq k\<close> is the \<open>k\<close>-th clock reading
  during the request. The result is \<open>None\<close> when the voucher is rejected.
\<close>

record Request =
  rq_world :: World
  rq_voucher :: VoucherHeader
  rq_cost :: int
  rq_clock :: "nat \<Rightarrow> int"

definition paidRequest :: "DrainService \<Rightarrow> VoucherStorage \<Rightarrow> Request \<Rightarrow> VoucherStorage option" where
  "paidRequest svc st rq =
     (case validateVoucher svc (rq_world rq) st (rq_voucher rq) (rq_cost rq)
             (rq_clock rq 0) (rq_clock rq 1) of
        (validation, st1) \<Rightarrow>
          if \<not> vr_valid validation then None
          else
            (case vr_channel validation of
               None \<Rightarrow> None
             | Some channel \<Rightarrow>
                 (case storeVoucher st1 (rq_voucher rq) channel (rq_cost rq)
                         (rq_clock rq 2) (rq_clock rq 3) of
                    Inl e \<Rightarrow> None
                  | Inr st2 \<Rightarrow> Some st2)))"

fun rounds :: "DrainService \<Rightarrow> VoucherStorage \<Rightarrow> Request list \<Rightarrow> VoucherStorage option" where
  "rounds svc st [] = Some st"
| "rounds svc st (rq # rqs) =
     (case paidRequest svc st rq of None \<Rightarrow> None | Some st1 \<Rightarrow> rounds svc st1 rqs)"

text \<open>
  The store \<^verbatim>\<open>storeVoucher\<close> leaves behind once both \<^verbatim>\<open>BigInt\<close> conversions have
  succeeded with \<open>amount\<close> and \<open>nonce\<close>.
\<close>

definition committed ::
  "VoucherStorage \<Rightarrow> VoucherHeader \<Rightarrow> ChannelState \<Rightarrow> int \<Rightarrow> int \<Rightarrow> int \<Rightarrow> int \<Rightarrow> int \<Rightarrow> VoucherStorage" where
  "committed st1 voucher chS amount nonce cost n3 n4 =
     updateChannel
       (storage_storeVoucher st1
          \<lparr>sv_channelId = vh_channelId voucher, sv_amount = amount, sv_nonce = nonce,
           sv_signature = vh_signature voucher, sv_consumer = cs_consumer chS,
           sv_receivedAt = n3, sv_claimed = False, sv_claimedAt = None,
           sv_claimTxHash = None\<rparr>)
       (vh_channelId voucher)
       (chS\<lparr>cs_totalCharged := cs_totalCharged chS + cost,
            cs_lastVoucher := Some (Shared (length (vouchers (data st1)))),
            cs_lastActivityAt := n4\<rparr>)"

text \<open>
  A cached channel is within the deposit \<open>D\<close> when its \<^verbatim>\<open>totalCharged\<close> is at most \<open>D\<close>
  and \<open>D\<close> is the deposit it was hydrated with.
\<close>

definition withinDeposit :: "VoucherStorage \<Rightarrow> Hash \<Rightarrow> int \<Rightarrow> bool" where
  "withinDeposit st c D =
     (case getChannel st c of
        None \<Rightarrow> True
      | Some ch \<Rightarrow> cs_totalCharged ch \<le> D \<and> cs_deposit ch = D)"

text \<open>
  The ledger invariant: every \<open>Shared\<close> reference points into the voucher array, and
  a channel's \<^verbatim>\<open>totalCharged\<close> does not exceed the amount of its \<^verbatim>\<open>lastVoucher\<close>.
\<close>

definition channelOk :: "StoredVoucher list \<Rightarrow> ChannelState \<Rightarrow> bool" where
  "channelOk vs ch =
     (case cs_lastVoucher ch of
        None \<Rightarrow> True
      | Some (Shared i) \<Rightarrow> i < length vs \<and> cs_totalCharged ch \<le> sv_amount (vs ! i)
      | Some (Own v) \<Rightarrow> cs_totalCharged ch \<le> sv_amount v)"

definition ledgerOk :: "VoucherStorage \<Rightarrow> bool" where
  "ledgerOk st = list_all (\<lambda>(channelId, ch). channelOk (vouchers (data st)) ch) (channels (data st))"

subsection \<open>Example inputs\<close>

definition ex_svc :: DrainService where
  "ex_svc = \<lparr>chainId = 137, claimThreshold = 1000000,
             account_address = ''0xAb'',
             contractAddress = ''0x1C''\<rparr>"

definition ex_channelData :: "int \<Rightarrow> int \<Rightarrow> ChannelData" where
  "ex_channelData deposit expiry =
     \<lparr>cd_consumer = ''0xC0'',
      cd_provider = ''0xaB'',
      cd_deposit = deposit, cd_claimed = 0, cd_expiry = expiry\<rparr>"

text \<open>
  A chain on which every channel has the given deposit and expiry, every signature
  verifies, every balance is the deposit and every claim goes through.
\<close>

definition ex_world :: "int \<Rightarrow> int \<Rightarrow> World" where
  "ex_world deposit expiry =
     \<lparr>readChannel = (\<lambda>channelId. Inr (ex_channelData deposit expiry)),
      getBalance = (\<lambda>channelId. Inr deposit),
      verifyTypedData = (\<lambda>signer domain channelId amount nonce signature. Inr True),
      writeClaim = (\<lambda>channelId amount nonce signature. Inr ''0xfe''),
      dateNow = (\<lambda>channelId i. 50 + int i)\<rparr>"

definition ex_voucher :: "Hash \<Rightarrow> string \<Rightarrow> string \<Rightarrow> VoucherHeader" where
  "ex_voucher channelId amount nonce =
     \<lparr>vh_channelId = channelId, vh_amount = amount, vh_nonce = nonce, vh_signature = ''0x51''\<rparr>"

definition ex_empty :: VoucherStorage where
  "ex_empty = newVoucherStorage None"

definition ex_request :: "int \<Rightarrow> string \<Rightarrow> string \<Rightarrow> int \<Rightarrow> Request" where
  "ex_request deposit amount nonce cost =
     \<lparr>rq_world = ex_world deposit 3600, rq_voucher = ex_voucher ''0xc1'' amount nonce,
      rq_cost = cost, rq_clock = (\<lambda>k. 10 + int k)\<rparr>"

text \<open>The store after one paid request of cost 100 on channel \<^verbatim>\<open>0xc1\<close> (deposit 1000).\<close>

definition ex_stored :: VoucherStorage where
  "ex_stored =
     (case rounds ex_svc ex_empty [ex_request 1000 ''100'' ''1'' 100] of
        None \<Rightarrow> ex_empty
      | Some st \<Rightarrow> st)"

text \<open>
  The store after one paid request of cost 100 paid with a voucher for 500, and the
  store after two paid requests of cost 100 and 250.
\<close>

definition ex_overpaid :: VoucherStorage where
  "ex_overpaid =
     (case rounds ex_svc ex_empty [ex_request 1000 ''500'' ''1'' 100] of
        None \<Rightarrow> ex_empty
      | Some st \<Rightarrow> st)"

definition ex_two_requests :: "Request list" where
  "ex_two_requests = [ex_request 1000 ''100'' ''1'' 100, ex_request 1000 ''350'' ''2'' 250]"

definition ex_two :: VoucherStorage where
  "ex_two =
     (case rounds ex_svc ex_empty ex_two_requests of
        None \<Rightarrow> ex_empty
      | Some st \<Rightarrow> st)"

text \<open>An association list without the entries of key \<open>c\<close>.\<close>

definition dropKey :: "'k \<Rightarrow> ('k \<times> 'v) list \<Rightarrow> ('k \<times> 'v) list" where
  "dropKey c al = filter (\<lambda>(k, v). k \<noteq> c) al"

text \<open>Every stored voucher of channel \<open>c\<close> is marked claimed.\<close>

definition allClaimed :: "VoucherStorage \<Rightarrow> Hash \<Rightarrow> bool" where
  "allClaimed st c = list_all (\<lambda>v. sv_channelId v = c \<longrightarrow> sv_claimed v) (vouchers (data st))"

text \<open>The argument tuple of the \<^verbatim>\<open>claim\<close> transaction for a voucher.\<close>

definition claimArgs :: "StoredVoucher \<Rightarrow> Hash \<times> int \<times> int \<times> Hex" where
  "claimArgs v = (sv_channelId v, sv_amount v, sv_nonce v, sv_signature v)"

text \<open>The entries of \<^verbatim>\<open>getHighestVoucherPerChannel\<close> are unclaimed stored vouchers, each under its own channel id.\<close>

definition entryOk :: "StoredVoucher list \<Rightarrow> Hash \<times> StoredVoucher \<Rightarrow> bool" where
  "entryOk vs e = (sv_channelId (snd e) = fst e \<and> \<not> sv_claimed (snd e) \<and> snd e \<in> set vs)"

text \<open>A clock that advances by one millisecond per reading.\<close>

definition ex_clock :: "nat \<Rightarrow> int" where
  "ex_clock i = 50 + int i"

text \<open>
  The highest unclaimed voucher of \<open>ex_two\<close> and the one stored before it, a chain on which every claim fails with
  the given error, and two error objects: a contract revert named \<^verbatim>\<open>InvalidAmount\<close> and a
  timeout without a named error.
\<close>

definition ex_highest :: StoredVoucher where
  "ex_highest =
     \<lparr>sv_channelId = ''0xc1'', sv_amount = 350, sv_nonce = 2, sv_signature = ''0x51'',
      sv_consumer = ''0xC0'', sv_receivedAt = 12, sv_claimed = False, sv_claimedAt = None,
      sv_claimTxHash = None\<rparr>"

definition ex_lower :: StoredVoucher where
  "ex_lower = ex_highest\<lparr>sv_amount := 100, sv_nonce := 1\<rparr>"





subsection \<open>Restart\<close>

text \<open>
  A process restart constructs a new \<^verbatim>\<open>VoucherStorage\<close> on the same file. What \<^verbatim>\<open>load\<close>
  can give back of a channel state is the state with its \<^verbatim>\<open>lastVoucher\<close> as an object
  of its own (\<open>ownCopy\<close>): equal field by field, no longer shared with the array.
\<close>

definition restart :: "VoucherStorage \<Rightarrow> VoucherStorage" where
  "restart st = newVoucherStorage (fileContent st)"

definition ownCopy :: "StoredVoucher list \<Rightarrow> ChannelState \<Rightarrow> ChannelState" where
  "ownCopy vs ch =
     ch\<lparr>cs_lastVoucher :=
          (case cs_lastVoucher ch of None \<Rightarrow> None | Some r \<Rightarrow> map_option Own (deref vs r))\<rparr>"

definition reloaded :: "StorageData \<Rightarrow> StorageData" where
  "reloaded d = d\<lparr>channels := map (\<lambda>(channelId, ch). (channelId, ownCopy (vouchers d) ch)) (channels d)\<rparr>"

definition isDecimalDigit :: "char \<Rightarrow> bool" where
  "isDecimalDigit c = (48 \<le> (of_char c :: nat) \<and> (of_char c :: nat) \<le> 57)"

text \<open>
  A store file as an earlier run may have left it: channel \<^verbatim>\<open>0xc1\<close> cached with expiry
  \<open>0\<close> and nothing charged yet. \<open>ex_legacy\<close> is the store constructed on it.
\<close>

definition ex_legacy_file :: SerData where
  "ex_legacy_file =
     \<lparr>sd_vouchers = [],
      sd_channels =
        [(''0xc1'',
          \<lparr>sc_channelId = ''0xc1'', sc_consumer = ''0xC0'', sc_deposit = ''1000'',
           sc_totalCharged = ''0'', sc_expiry = 0, sc_lastVoucher = None,
           sc_createdAt = 10, sc_lastActivityAt = 11\<rparr>)],
      sd_totalEarned = ''0'', sd_totalClaimed = ''0''\<rparr>"

definition ex_legacy :: VoucherStorage where
  "ex_legacy = newVoucherStorage (Some ex_legacy_file)"

text \<open>A chain on which every channel is open to a provider other than \<open>ex_svc\<close>.\<close>

definition ex_foreign :: World where
  "ex_foreign =
     (ex_world 1000 3600)\<lparr>readChannel :=
        (\<lambda>channelId. Inr ((ex_channelData 1000 3600)\<lparr>cd_provider := ''0xBB''\<rparr>))\<rparr>"

text \<open>A freshly hydrated channel state, and the store after committing a first voucher on it.\<close>

definition ex_channel :: ChannelState where
  "ex_channel =
     \<lparr>cs_channelId = ''0xc1'', cs_consumer = ''0xC0'', cs_deposit = 1000, cs_totalCharged = 0,
      cs_expiry = 3600, cs_lastVoucher = None, cs_createdAt = 10, cs_lastActivityAt = 11\<rparr>"

definition ex_committed :: VoucherStorage where
  "ex_committed = committed ex_empty (ex_voucher ''0xc1'' ''100'' ''1'') ex_channel 100 1 100 12 13"

subsection \<open>Later states of the store\<close>




section \<open>Properties\<close>

subsection \<open>Evaluating the model on concrete inputs\<close>

lemma char_of_eq_iff': "c = char_of (n::nat) \<longleftrightarrow> take_bit 8 n = of_char c"
  using char_of_eq_iff[of n c] by auto

lemmas eval_defs =
  paidRequest_def validateVoucher_def BigInt_def StringToBigInt_def trimString_def
  isStrWhiteSpace_def parseDigits_def digitVal_def toLowerCase_def lowerChar_def zeroAddress_def
  resolveChannelState_def getChannel_def lastVoucherOf_def deref_def storeVoucher_def
  updateChannel_def storage_storeVoucher_def save_def serializable_def serVoucher_def
  serChannel_def toString_def digitChar_def Number_def newVoucherStorage_def load_def
  emptyData_def EIP712_DOMAIN_name_def EIP712_DOMAIN_version_def reject_def caught_def
  cachedTotal_def cachedLastVoucher_def
  ex_svc_def ex_world_def ex_channelData_def ex_voucher_def ex_empty_def ex_request_def
  char_of_eq_iff char_of_eq_iff'

subsection \<open>Voucher validation\<close>

lemma resolve_total:
  "cs_totalCharged (fst (resolveChannelState st voucher cd n1 n2)) =
     cachedTotal st (vh_channelId voucher)"
  by (simp add: resolveChannelState_def cachedTotal_def split: option.splits)

lemma resolve_last:
  "lastVoucherOf (data (snd (resolveChannelState st voucher cd n1 n2)))
      (fst (resolveChannelState st voucher cd n1 n2)) =
     cachedLastVoucher st (vh_channelId voucher)"
  by (simp add: resolveChannelState_def cachedLastVoucher_def lastVoucherOf_def
        split: option.splits)




text \<open>
  C4. When the channel of the voucher is cached with a \<^verbatim>\<open>lastVoucher\<close> and the voucher's
  nonce is at most \<^verbatim>\<open>lastVoucher.nonce\<close>, \<^verbatim>\<open>validateVoucher\<close> does not accept, whatever the
  amount, the required charge, the chain's answer and the signature.
\<close>

theorem validateVoucher_stale_nonce:
  assumes ch: "getChannel st (vh_channelId voucher) = Some ch"
      and lv: "lastVoucherOf (data st) ch = Some lv"
      and non: "BigInt (vh_nonce voucher) = Inr nonce"
      and le: "nonce \<le> sv_nonce lv"
  shows "\<not> vr_valid (fst (validateVoucher svc w st voucher c now1 now2))"
proof -
  have C: "cachedLastVoucher st (vh_channelId voucher) = Some lv"
    using ch lv by (simp add: cachedLastVoucher_def)
  show ?thesis
  proof (cases "readChannel w (vh_channelId voucher)")
    case (Inl e)
    then show ?thesis using non
      by (simp add: validateVoucher_def caught_def split: sum.splits)
  next
    case (Inr channelData)
    obtain channelState st1
      where r: "resolveChannelState st voucher channelData now1 now2 = (channelState, st1)"
      by (cases "resolveChannelState st voucher channelData now1 now2")
    have L: "lastVoucherOf (data st1) channelState = Some lv"
      using resolve_last[of st voucher channelData now1 now2] r C by simp
    show ?thesis using non Inr r L le
      by (simp add: validateVoucher_def reject_def caught_def Let_def split: sum.splits)
  qed
qed

theorem validateVoucher_stale_nonce_witness:
  "getChannel ex_stored (vh_channelId (ex_voucher ''0xc1'' ''900'' ''1'')) \<noteq> None
   \<and> BigInt (vh_nonce (ex_voucher ''0xc1'' ''900'' ''1'')) = Inr 1
   \<and> \<not> vr_valid (fst (validateVoucher ex_svc (ex_world 1000 3600) ex_stored
           (ex_voucher ''0xc1'' ''900'' ''1'') 100 0 0))"
proof -
  let ?v = "ex_voucher ''0xc1'' ''900'' ''1''"
  let ?lv = "\<lparr>sv_channelId = ''0xc1'', sv_amount = 100, sv_nonce = 1,
                   sv_signature = ''0x51'',
                   sv_consumer = ''0xC0'',
                   sv_receivedAt = 12, sv_claimed = False,
                   sv_claimedAt = None, sv_claimTxHash = None\<rparr>"
  let ?ch = "\<lparr>cs_channelId = ''0xc1'',
               cs_consumer = ''0xC0'',
               cs_deposit = 1000, cs_totalCharged = 100, cs_expiry = 3600,
               cs_lastVoucher = Some (Shared 0), cs_createdAt = 10,
               cs_lastActivityAt = 13\<rparr>"
  have h1: "getChannel ex_stored (vh_channelId ?v) = Some ?ch" by (simp add: ex_stored_def eval_defs)
  have h2: "lastVoucherOf (data ex_stored) ?ch = Some ?lv" by (simp add: ex_stored_def eval_defs)
  have h3: "BigInt (vh_nonce ?v) = Inr 1" by (simp add: ex_stored_def eval_defs)
  have h4: "(1::int) \<le> sv_nonce ?lv" by simp
  note inst = validateVoucher_stale_nonce[OF h1 h2 h3 h4, of ex_svc "ex_world 1000 3600" 100 0 0]
  show ?thesis using h1 h3 inst by simp
qed

subsection \<open>What validation leaves alone\<close>

lemma update_present_keys:
  "map_of al k = Some v \<Longrightarrow> map fst (AList.update k v' al) = map fst al"
  by (induction al) (auto split: if_splits)

lemma resolve_store:
  "snd (resolveChannelState st voucher cd n1 n2) = st
   \<or> (\<exists>ch. getChannel st (vh_channelId voucher) = Some ch \<and> cs_expiry ch = 0
        \<and> snd (resolveChannelState st voucher cd n1 n2) =
            st\<lparr>data := (data st)\<lparr>channels :=
                 AList.update (vh_channelId voucher) (ch\<lparr>cs_expiry := Number (cd_expiry cd)\<rparr>)
                   (channels (data st))\<rparr>\<rparr>)"
  by (simp add: resolveChannelState_def split: option.splits)

lemma validate_store:
  "snd (validateVoucher svc w st voucher c n1 n2) = st
   \<or> (\<exists>cd. readChannel w (vh_channelId voucher) = Inr cd
        \<and> snd (validateVoucher svc w st voucher c n1 n2) =
            snd (resolveChannelState st voucher cd n1 n2))"
  by (simp add: validateVoucher_def Let_def split: sum.splits prod.splits)

lemma resolve_store_exact:
  "snd (resolveChannelState st voucher cd n1 n2) =
     (case getChannel st (vh_channelId voucher) of
        None \<Rightarrow> st
      | Some ch \<Rightarrow>
          if cs_expiry ch = 0
          then st\<lparr>data := (data st)\<lparr>channels :=
                 AList.update (vh_channelId voucher) (ch\<lparr>cs_expiry := Number (cd_expiry cd)\<rparr>)
                   (channels (data st))\<rparr>\<rparr>
          else st)"
  by (simp add: resolveChannelState_def split: option.splits)

lemma validate_store_exact:
  "snd (validateVoucher svc w st voucher c n1 n2) =
     (case BigInt (vh_amount voucher) of
        Inl e \<Rightarrow> st
      | Inr amount \<Rightarrow>
     (case BigInt (vh_nonce voucher) of
        Inl e \<Rightarrow> st
      | Inr nonce \<Rightarrow>
     (case readChannel w (vh_channelId voucher) of
        Inl e \<Rightarrow> st
      | Inr cd \<Rightarrow>
          if cd_consumer cd = zeroAddress then st
          else if toLowerCase (cd_provider cd) \<noteq> toLowerCase (account_address svc) then st
          else snd (resolveChannelState st voucher cd n1 n2))))"
  by (simp add: validateVoucher_def Let_def split: sum.splits prod.splits)

lemma validate_frame_core:
  assumes r: "validateVoucher svc w st voucher requiredAmount now1 now2 = (res, st1)"
  shows "fileContent st1 = fileContent st
       \<and> vouchers (data st1) = vouchers (data st)
       \<and> map fst (channels (data st1)) = map fst (channels (data st))
       \<and> (\<forall>c. c \<noteq> vh_channelId voucher \<longrightarrow> getChannel st1 c = getChannel st c)
       \<and> (\<forall>c. map_option cs_totalCharged (getChannel st1 c) = map_option cs_totalCharged (getChannel st c)
              \<and> map_option cs_lastVoucher (getChannel st1 c) = map_option cs_lastVoucher (getChannel st c))
       \<and> (case getChannel st (vh_channelId voucher) of
             None \<Rightarrow> st1 = st
           | Some ch \<Rightarrow>
               st1 = st
               \<or> (cs_expiry ch = 0
                   \<and> (\<exists>cd. readChannel w (vh_channelId voucher) = Inr cd
                        \<and> getChannel st1 (vh_channelId voucher) =
                            Some (ch\<lparr>cs_expiry := Number (cd_expiry cd)\<rparr>))))
       \<and> ((\<forall>ch. getChannel st (vh_channelId voucher) = Some ch \<longrightarrow> cs_expiry ch \<noteq> 0) \<longrightarrow> st1 = st)
       \<and> (\<forall>channelState cost n1 n2 st2.
             storeVoucher st1 voucher channelState cost n1 n2 = Inr st2 \<longrightarrow>
               length (vouchers (data st2)) = Suc (length (vouchers (data st1)))
               \<and> fileContent st2 = Some (serializable (data st2)))"
proof -
  let ?k = "vh_channelId voucher"
  have s: "st1 = snd (validateVoucher svc w st voucher requiredAmount now1 now2)"
    using r by simp
  have alt: "st1 = st
     \<or> (\<exists>cd ch. readChannel w ?k = Inr cd \<and> getChannel st ?k = Some ch \<and> cs_expiry ch = 0
          \<and> st1 = st\<lparr>data := (data st)\<lparr>channels :=
                 AList.update ?k (ch\<lparr>cs_expiry := Number (cd_expiry cd)\<rparr>) (channels (data st))\<rparr>\<rparr>)"
    using validate_store[of svc w st voucher requiredAmount now1 now2]
      resolve_store[of st voucher _ now1 now2]
    unfolding s by metis
  have commit: "\<forall>channelState cost n1 n2 st2.
             storeVoucher st1 voucher channelState cost n1 n2 = Inr st2 \<longrightarrow>
               length (vouchers (data st2)) = Suc (length (vouchers (data st1)))
               \<and> fileContent st2 = Some (serializable (data st2))"
    by (auto simp add: storeVoucher_def Let_def updateChannel_def storage_storeVoucher_def save_def
          split: sum.splits)
  from alt show ?thesis
  proof
    assume "st1 = st"
    then show ?thesis using commit by (simp split: option.splits)
  next
    assume "\<exists>cd ch. readChannel w ?k = Inr cd \<and> getChannel st ?k = Some ch \<and> cs_expiry ch = 0
          \<and> st1 = st\<lparr>data := (data st)\<lparr>channels :=
                 AList.update ?k (ch\<lparr>cs_expiry := Number (cd_expiry cd)\<rparr>) (channels (data st))\<rparr>\<rparr>"
    then obtain cd ch where rd: "readChannel w ?k = Inr cd" and g: "getChannel st ?k = Some ch"
      and z: "cs_expiry ch = 0"
      and e: "st1 = st\<lparr>data := (data st)\<lparr>channels :=
                 AList.update ?k (ch\<lparr>cs_expiry := Number (cd_expiry cd)\<rparr>) (channels (data st))\<rparr>\<rparr>"
      by blast
    have m: "map_of (channels (data st)) ?k = Some ch" using g by (simp add: getChannel_def)
    have 1: "fileContent st1 = fileContent st" "vouchers (data st1) = vouchers (data st)"
      by (simp_all add: e)
    have 2: "map fst (channels (data st1)) = map fst (channels (data st))"
      using update_present_keys[OF m] by (simp add: e)
    have 3: "getChannel st1 c = (if c = ?k then Some (ch\<lparr>cs_expiry := Number (cd_expiry cd)\<rparr>)
                                 else getChannel st c)" for c
      by (simp add: e getChannel_def update_conv')
    have 4: "map_option cs_totalCharged (getChannel st1 c) = map_option cs_totalCharged (getChannel st c)
              \<and> map_option cs_lastVoucher (getChannel st1 c) = map_option cs_lastVoucher (getChannel st c)" for c
      using g by (simp add: 3)
    show ?thesis
      using 1 2 3 4 commit g z rd by auto
  qed
qed

text \<open>
  The store after validation, when the voucher gets past the two conversions, the
  chain read and the existence and provider checks and its channel is cached with
  expiry \<open>0\<close>: the cached expiry is the on-chain one.
\<close>

lemma validate_backfills:
  assumes r: "validateVoucher svc w st voucher requiredAmount now1 now2 = (res, st1)"
      and a: "BigInt (vh_amount voucher) = Inr amount"
      and n: "BigInt (vh_nonce voucher) = Inr nonce"
      and rd: "readChannel w (vh_channelId voucher) = Inr cd"
      and ex: "cd_consumer cd \<noteq> zeroAddress"
      and pr: "toLowerCase (cd_provider cd) = toLowerCase (account_address svc)"
      and g: "getChannel st (vh_channelId voucher) = Some ch"
      and z: "cs_expiry ch = 0"
  shows "st1 = st\<lparr>data := (data st)\<lparr>channels :=
                 AList.update (vh_channelId voucher) (ch\<lparr>cs_expiry := Number (cd_expiry cd)\<rparr>)
                   (channels (data st))\<rparr>\<rparr>"
    and "getChannel st1 (vh_channelId voucher) = Some (ch\<lparr>cs_expiry := Number (cd_expiry cd)\<rparr>)"
proof -
  have s: "st1 = snd (validateVoucher svc w st voucher requiredAmount now1 now2)"
    using r by simp
  show e: "st1 = st\<lparr>data := (data st)\<lparr>channels :=
                 AList.update (vh_channelId voucher) (ch\<lparr>cs_expiry := Number (cd_expiry cd)\<rparr>)
                   (channels (data st))\<rparr>\<rparr>"
    unfolding s validate_store_exact resolve_store_exact
    using a n rd ex pr g z by simp
  show "getChannel st1 (vh_channelId voucher) = Some (ch\<lparr>cs_expiry := Number (cd_expiry cd)\<rparr>)"
    by (simp add: e getChannel_def update_conv')
qed

lemma validate_changes_only_by_backfill:
  assumes r: "validateVoucher svc w st voucher requiredAmount now1 now2 = (res, st1)"
      and ne: "st1 \<noteq> st"
  shows "\<exists>amount nonce cd ch.
           BigInt (vh_amount voucher) = Inr amount \<and> BigInt (vh_nonce voucher) = Inr nonce
           \<and> readChannel w (vh_channelId voucher) = Inr cd
           \<and> cd_consumer cd \<noteq> zeroAddress
           \<and> toLowerCase (cd_provider cd) = toLowerCase (account_address svc)
           \<and> getChannel st (vh_channelId voucher) = Some ch \<and> cs_expiry ch = 0
           \<and> Number (cd_expiry cd) \<noteq> 0"
proof -
  have s: "st1 = snd (validateVoucher svc w st voucher requiredAmount now1 now2)"
    using r by simp
  from ne obtain amount where a: "BigInt (vh_amount voucher) = Inr amount"
    unfolding s validate_store_exact by (cases "BigInt (vh_amount voucher)") simp_all
  from ne obtain nonce where n: "BigInt (vh_nonce voucher) = Inr nonce"
    unfolding s validate_store_exact a by (cases "BigInt (vh_nonce voucher)") simp_all
  from ne obtain cd where rd: "readChannel w (vh_channelId voucher) = Inr cd"
    unfolding s validate_store_exact a n by (cases "readChannel w (vh_channelId voucher)") simp_all
  have ex: "cd_consumer cd \<noteq> zeroAddress"
    using ne unfolding s validate_store_exact a n rd by (auto split: if_splits)
  have pr: "toLowerCase (cd_provider cd) = toLowerCase (account_address svc)"
    using ne unfolding s validate_store_exact a n rd by (auto split: if_splits)
  have rs: "st1 = snd (resolveChannelState st voucher cd now1 now2)"
    unfolding s validate_store_exact a n rd using ex pr by simp
  from ne obtain ch where g: "getChannel st (vh_channelId voucher) = Some ch"
    unfolding rs resolve_store_exact by (cases "getChannel st (vh_channelId voucher)") simp_all
  have z: "cs_expiry ch = 0"
    using ne unfolding rs resolve_store_exact g by (auto split: if_splits)
  have m: "map_of (channels (data st)) (vh_channelId voucher) = Some ch"
    using g by (simp add: getChannel_def)
  have nz: "Number (cd_expiry cd) \<noteq> 0"
  proof
    assume "Number (cd_expiry cd) = 0"
    then have "ch\<lparr>cs_expiry := Number (cd_expiry cd)\<rparr> = ch" using z by simp
    then have "snd (resolveChannelState st voucher cd now1 now2) = st"
      unfolding resolve_store_exact g using z m by (simp add: update_triv)
    then show False using ne rs by simp
  qed
  show ?thesis using a n rd ex pr g z nz by blast
qed

text \<open>
  C8, as the code has it. \<^verbatim>\<open>validateVoucher\<close> never writes the store's file and never
  changes the voucher list, the set and order of cached channels, any channel other
  than the voucher's, or the \<^verbatim>\<open>totalCharged\<close> and \<^verbatim>\<open>lastVoucher\<close> of any channel, whether
  it accepts or rejects. The one thing it may change is the cached \<^verbatim>\<open>expiry\<close> of the
  voucher's channel. When the voucher's amount and nonce convert to bigints, the chain
  read succeeds, the channel exists on chain (its consumer is not the zero address)
  and is open to this provider, and the channel is cached with a falsy expiry (\<open>0\<close>),
  the in-memory expiry of that channel is set to the on-chain one, whatever the
  outcome of the later checks. The store differs from the one before validation only
  in that case, and then only if the on-chain expiry is not \<open>0\<close>: when a conversion or
  the chain read throws, when the existence or the provider check rejects, when the
  voucher's channel is not cached, or when it is cached with an expiry, the store is
  returned exactly as it was. The commit step \<^verbatim>\<open>storeVoucher\<close> is where the voucher
  list grows and the file is written.
\<close>

theorem validateVoucher_frame:
  assumes r: "validateVoucher svc w st voucher requiredAmount now1 now2 = (res, st1)"
  shows "fileContent st1 = fileContent st
       \<and> vouchers (data st1) = vouchers (data st)
       \<and> map fst (channels (data st1)) = map fst (channels (data st))
       \<and> (\<forall>c. c \<noteq> vh_channelId voucher \<longrightarrow> getChannel st1 c = getChannel st c)
       \<and> (\<forall>c. map_option cs_totalCharged (getChannel st1 c) = map_option cs_totalCharged (getChannel st c)
              \<and> map_option cs_lastVoucher (getChannel st1 c) = map_option cs_lastVoucher (getChannel st c))
       \<and> (case getChannel st (vh_channelId voucher) of
             None \<Rightarrow> st1 = st
           | Some ch \<Rightarrow>
               st1 = st
               \<or> (cs_expiry ch = 0
                   \<and> (\<exists>cd. readChannel w (vh_channelId voucher) = Inr cd
                        \<and> getChannel st1 (vh_channelId voucher) =
                            Some (ch\<lparr>cs_expiry := Number (cd_expiry cd)\<rparr>))))
       \<and> ((\<forall>ch. getChannel st (vh_channelId voucher) = Some ch \<longrightarrow> cs_expiry ch \<noteq> 0) \<longrightarrow> st1 = st)
       \<and> (\<forall>channelState cost n1 n2 st2.
             storeVoucher st1 voucher channelState cost n1 n2 = Inr st2 \<longrightarrow>
               length (vouchers (data st2)) = Suc (length (vouchers (data st1)))
               \<and> fileContent st2 = Some (serializable (data st2)))
       \<and> (\<forall>amount nonce cd ch.
             BigInt (vh_amount voucher) = Inr amount \<and> BigInt (vh_nonce voucher) = Inr nonce
             \<and> readChannel w (vh_channelId voucher) = Inr cd
             \<and> cd_consumer cd \<noteq> zeroAddress
             \<and> toLowerCase (cd_provider cd) = toLowerCase (account_address svc)
             \<and> getChannel st (vh_channelId voucher) = Some ch \<and> cs_expiry ch = 0 \<longrightarrow>
               st1 = st\<lparr>data := (data st)\<lparr>channels :=
                       AList.update (vh_channelId voucher) (ch\<lparr>cs_expiry := Number (cd_expiry cd)\<rparr>)
                         (channels (data st))\<rparr>\<rparr>
               \<and> getChannel st1 (vh_channelId voucher) =
                   Some (ch\<lparr>cs_expiry := Number (cd_expiry cd)\<rparr>))
       \<and> (st1 \<noteq> st \<longleftrightarrow>
             (\<exists>amount nonce cd ch.
                BigInt (vh_amount voucher) = Inr amount \<and> BigInt (vh_nonce voucher) = Inr nonce
                \<and> readChannel w (vh_channelId voucher) = Inr cd
                \<and> cd_consumer cd \<noteq> zeroAddress
                \<and> toLowerCase (cd_provider cd) = toLowerCase (account_address svc)
                \<and> getChannel st (vh_channelId voucher) = Some ch \<and> cs_expiry ch = 0
                \<and> Number (cd_expiry cd) \<noteq> 0))"
proof -
  note core = validate_frame_core[OF r]
  have fill: "\<forall>amount nonce cd ch.
             BigInt (vh_amount voucher) = Inr amount \<and> BigInt (vh_nonce voucher) = Inr nonce
             \<and> readChannel w (vh_channelId voucher) = Inr cd
             \<and> cd_consumer cd \<noteq> zeroAddress
             \<and> toLowerCase (cd_provider cd) = toLowerCase (account_address svc)
             \<and> getChannel st (vh_channelId voucher) = Some ch \<and> cs_expiry ch = 0 \<longrightarrow>
               st1 = st\<lparr>data := (data st)\<lparr>channels :=
                       AList.update (vh_channelId voucher) (ch\<lparr>cs_expiry := Number (cd_expiry cd)\<rparr>)
                         (channels (data st))\<rparr>\<rparr>
               \<and> getChannel st1 (vh_channelId voucher) =
                   Some (ch\<lparr>cs_expiry := Number (cd_expiry cd)\<rparr>)"
    using validate_backfills[OF r] by blast
  have only: "st1 \<noteq> st \<longleftrightarrow>
             (\<exists>amount nonce cd ch.
                BigInt (vh_amount voucher) = Inr amount \<and> BigInt (vh_nonce voucher) = Inr nonce
                \<and> readChannel w (vh_channelId voucher) = Inr cd
                \<and> cd_consumer cd \<noteq> zeroAddress
                \<and> toLowerCase (cd_provider cd) = toLowerCase (account_address svc)
                \<and> getChannel st (vh_channelId voucher) = Some ch \<and> cs_expiry ch = 0
                \<and> Number (cd_expiry cd) \<noteq> 0)"
  proof
    assume "st1 \<noteq> st"
    then show "\<exists>amount nonce cd ch.
                BigInt (vh_amount voucher) = Inr amount \<and> BigInt (vh_nonce voucher) = Inr nonce
                \<and> readChannel w (vh_channelId voucher) = Inr cd
                \<and> cd_consumer cd \<noteq> zeroAddress
                \<and> toLowerCase (cd_provider cd) = toLowerCase (account_address svc)
                \<and> getChannel st (vh_channelId voucher) = Some ch \<and> cs_expiry ch = 0
                \<and> Number (cd_expiry cd) \<noteq> 0"
      by (rule validate_changes_only_by_backfill[OF r])
  next
    assume "\<exists>amount nonce cd ch.
                BigInt (vh_amount voucher) = Inr amount \<and> BigInt (vh_nonce voucher) = Inr nonce
                \<and> readChannel w (vh_channelId voucher) = Inr cd
                \<and> cd_consumer cd \<noteq> zeroAddress
                \<and> toLowerCase (cd_provider cd) = toLowerCase (account_address svc)
                \<and> getChannel st (vh_channelId voucher) = Some ch \<and> cs_expiry ch = 0
                \<and> Number (cd_expiry cd) \<noteq> 0"
    then obtain amount nonce cd ch where h:
      "BigInt (vh_amount voucher) = Inr amount" "BigInt (vh_nonce voucher) = Inr nonce"
      "readChannel w (vh_channelId voucher) = Inr cd" "cd_consumer cd \<noteq> zeroAddress"
      "toLowerCase (cd_provider cd) = toLowerCase (account_address svc)"
      "getChannel st (vh_channelId voucher) = Some ch" "cs_expiry ch = 0"
      and nz: "Number (cd_expiry cd) \<noteq> 0"
      by blast
    have "getChannel st1 (vh_channelId voucher) = Some (ch\<lparr>cs_expiry := Number (cd_expiry cd)\<rparr>)"
      by (rule validate_backfills(2)[OF r h])
    moreover have "ch\<lparr>cs_expiry := Number (cd_expiry cd)\<rparr> \<noteq> ch"
    proof
      assume "ch\<lparr>cs_expiry := Number (cd_expiry cd)\<rparr> = ch"
      then have "cs_expiry (ch\<lparr>cs_expiry := Number (cd_expiry cd)\<rparr>) = cs_expiry ch" by simp
      then show False using h(7) nz by simp
    qed
    ultimately show "st1 \<noteq> st" using h(6) by auto
  qed
  show ?thesis
    using core fill only
    apply -
    apply (elim conjE)
    apply (intro conjI; assumption)
    done
qed

theorem validateVoucher_frame_witness:
  "getChannel ex_stored ''0xc1'' \<noteq> None
   \<and> vr_valid (fst (validateVoucher ex_svc (ex_world 1000 7200) ex_stored
        (ex_voucher ''0xc1'' ''200'' ''2'') 100 0 0))
   \<and> snd (validateVoucher ex_svc (ex_world 1000 7200) ex_stored
        (ex_voucher ''0xc1'' ''200'' ''2'') 100 0 0) = ex_stored
   \<and> map_option cs_expiry (getChannel ex_legacy ''0xc1'') = Some 0
   \<and> map_option cs_expiry (getChannel (snd (validateVoucher ex_svc (ex_world 1000 3600) ex_legacy
        (ex_voucher ''0xc1'' ''100'' ''1'') 100 0 0)) ''0xc1'') = Some 3600
   \<and> map_option cs_totalCharged (getChannel (snd (validateVoucher ex_svc (ex_world 1000 3600) ex_legacy
        (ex_voucher ''0xc1'' ''100'' ''1'') 100 0 0)) ''0xc1'') = Some 0
   \<and> snd (validateVoucher ex_svc (ex_world 1000 3600) ex_legacy
        (ex_voucher ''0xc1'' ''100'' ''1'') 100 0 0) \<noteq> ex_legacy
   \<and> snd (validateVoucher ex_svc ex_foreign ex_legacy
        (ex_voucher ''0xc1'' ''100'' ''1'') 100 0 0) = ex_legacy
   \<and> snd (validateVoucher ex_svc (ex_world 1000 3600) ex_legacy
        (ex_voucher ''0xc1'' ''abc'' ''1'') 100 0 0) = ex_legacy"
proof -
  let ?v = "validateVoucher ex_svc (ex_world 1000 7200) ex_stored (ex_voucher ''0xc1'' ''200'' ''2'') 100 0 0"
  let ?l = "validateVoucher ex_svc (ex_world 1000 3600) ex_legacy (ex_voucher ''0xc1'' ''100'' ''1'') 100 0 0"
  let ?f = "validateVoucher ex_svc ex_foreign ex_legacy (ex_voucher ''0xc1'' ''100'' ''1'') 100 0 0"
  let ?b = "validateVoucher ex_svc (ex_world 1000 3600) ex_legacy (ex_voucher ''0xc1'' ''abc'' ''1'') 100 0 0"
  let ?ch = "\<lparr>cs_channelId = ''0xc1'', cs_consumer = ''0xC0'', cs_deposit = 1000,
               cs_totalCharged = 100, cs_expiry = 3600, cs_lastVoucher = Some (Shared 0),
               cs_createdAt = 10, cs_lastActivityAt = 13\<rparr>"
  let ?lch = "\<lparr>cs_channelId = ''0xc1'', cs_consumer = ''0xC0'', cs_deposit = 1000,
               cs_totalCharged = 0, cs_expiry = 0, cs_lastVoucher = None,
               cs_createdAt = 10, cs_lastActivityAt = 11\<rparr>"
  have g: "getChannel ex_stored (vh_channelId (ex_voucher ''0xc1'' ''200'' ''2'')) = Some ?ch"
    by (simp add: ex_stored_def eval_defs)
  have ok: "vr_valid (fst ?v)"
    by (simp add: ex_stored_def eval_defs)
  note kept = validateVoucher_frame[OF surjective_pairing, of ex_svc "ex_world 1000 7200" ex_stored
      "ex_voucher ''0xc1'' ''200'' ''2''" 100 0 0]
  have "\<forall>ch. getChannel ex_stored (vh_channelId (ex_voucher ''0xc1'' ''200'' ''2'')) = Some ch
          \<longrightarrow> cs_expiry ch \<noteq> 0"
    using g by simp
  then have a: "snd ?v = ex_stored" using kept by blast
  have lc: "vh_channelId (ex_voucher ''0xc1'' ''100'' ''1'') = ''0xc1''"
    by (simp add: ex_voucher_def)
  have h1: "BigInt (vh_amount (ex_voucher ''0xc1'' ''100'' ''1'')) = Inr 100"
    by (simp add: eval_defs)
  have h2: "BigInt (vh_nonce (ex_voucher ''0xc1'' ''100'' ''1'')) = Inr 1"
    by (simp add: eval_defs)
  have h3: "readChannel (ex_world 1000 3600) (vh_channelId (ex_voucher ''0xc1'' ''100'' ''1''))
              = Inr (ex_channelData 1000 3600)"
    by (simp add: ex_world_def)
  have h4: "cd_consumer (ex_channelData 1000 3600) \<noteq> zeroAddress"
    by (simp add: ex_channelData_def zeroAddress_def)
  have h5: "toLowerCase (cd_provider (ex_channelData 1000 3600)) = toLowerCase (account_address ex_svc)"
    by (simp add: eval_defs)
  have h6: "getChannel ex_legacy (vh_channelId (ex_voucher ''0xc1'' ''100'' ''1'')) = Some ?lch"
    by (simp add: ex_legacy_def ex_legacy_file_def loadChannel_def eval_defs)
  have h7: "cs_expiry ?lch = 0" by simp
  have h8: "Number (cd_expiry (ex_channelData 1000 3600)) \<noteq> 0"
    by (simp add: ex_channelData_def Number_def)
  note moved = validateVoucher_frame[OF surjective_pairing, of ex_svc "ex_world 1000 3600" ex_legacy
      "ex_voucher ''0xc1'' ''100'' ''1''" 100 0 0]
  from moved h1 h2 h3 h4 h5 h6 h7
  have "getChannel (snd ?l) (vh_channelId (ex_voucher ''0xc1'' ''100'' ''1'')) =
            Some (?lch\<lparr>cs_expiry := Number (cd_expiry (ex_channelData 1000 3600))\<rparr>)"
    by blast
  then have b: "map_option cs_expiry (getChannel (snd ?l) ''0xc1'') = Some 3600"
    by (simp add: lc ex_channelData_def Number_def)
  have b0: "map_option cs_expiry (getChannel ex_legacy ''0xc1'') = Some 0"
    using h6 by (simp add: lc)
  have "map_option cs_totalCharged (getChannel (snd ?l) ''0xc1'') =
          map_option cs_totalCharged (getChannel ex_legacy ''0xc1'')"
    using moved by blast
  then have c: "map_option cs_totalCharged (getChannel (snd ?l) ''0xc1'') = Some 0"
    using h6 by (simp add: lc)
  from moved h1 h2 h3 h4 h5 h6 h7 h8 have d: "snd ?l \<noteq> ex_legacy"
    by blast
  note foreign = validateVoucher_frame[OF surjective_pairing, of ex_svc ex_foreign ex_legacy
      "ex_voucher ''0xc1'' ''100'' ''1''" 100 0 0]
  have f3: "readChannel ex_foreign (vh_channelId (ex_voucher ''0xc1'' ''100'' ''1''))
              = Inr ((ex_channelData 1000 3600)\<lparr>cd_provider := ''0xBB''\<rparr>)"
    by (simp add: ex_foreign_def)
  have f5: "toLowerCase (cd_provider ((ex_channelData 1000 3600)\<lparr>cd_provider := ''0xBB''\<rparr>))
              \<noteq> toLowerCase (account_address ex_svc)"
    by (simp add: eval_defs)
  have "\<not> (\<exists>amount nonce cd ch.
           BigInt (vh_amount (ex_voucher ''0xc1'' ''100'' ''1'')) = Inr amount
           \<and> BigInt (vh_nonce (ex_voucher ''0xc1'' ''100'' ''1'')) = Inr nonce
           \<and> readChannel ex_foreign (vh_channelId (ex_voucher ''0xc1'' ''100'' ''1'')) = Inr cd
           \<and> cd_consumer cd \<noteq> zeroAddress
           \<and> toLowerCase (cd_provider cd) = toLowerCase (account_address ex_svc)
           \<and> getChannel ex_legacy (vh_channelId (ex_voucher ''0xc1'' ''100'' ''1'')) = Some ch
           \<and> cs_expiry ch = 0 \<and> Number (cd_expiry cd) \<noteq> 0)"
    using f5 unfolding f3 by blast
  then have e: "snd ?f = ex_legacy" using foreign by blast
  note bad = validateVoucher_frame[OF surjective_pairing, of ex_svc "ex_world 1000 3600" ex_legacy
      "ex_voucher ''0xc1'' ''abc'' ''1''" 100 0 0]
  have ba: "\<forall>amount. BigInt (vh_amount (ex_voucher ''0xc1'' ''abc'' ''1'')) \<noteq> Inr amount"
    by (simp add: eval_defs)
  have "\<not> (\<exists>amount nonce cd ch.
           BigInt (vh_amount (ex_voucher ''0xc1'' ''abc'' ''1'')) = Inr amount
           \<and> BigInt (vh_nonce (ex_voucher ''0xc1'' ''abc'' ''1'')) = Inr nonce
           \<and> readChannel (ex_world 1000 3600) (vh_channelId (ex_voucher ''0xc1'' ''abc'' ''1'')) = Inr cd
           \<and> cd_consumer cd \<noteq> zeroAddress
           \<and> toLowerCase (cd_provider cd) = toLowerCase (account_address ex_svc)
           \<and> getChannel ex_legacy (vh_channelId (ex_voucher ''0xc1'' ''abc'' ''1'')) = Some ch
           \<and> cs_expiry ch = 0 \<and> Number (cd_expiry cd) \<noteq> 0)"
    using ba by blast
  then have f: "snd ?b = ex_legacy" using bad by blast
  have g': "getChannel ex_stored ''0xc1'' \<noteq> None"
    using g by (simp add: ex_voucher_def)
  show ?thesis using g' ok a b0 b c d e f by blast
qed

text \<open>
  C8 as the specification words it fails: validating a voucher for a channel that is
  cached with expiry \<open>0\<close> changes the cached expiry of that channel.
\<close>

theorem validateVoucher_mutates_expiry_counterexample:
  "map_option cs_expiry (getChannel ex_legacy ''0xc1'') = Some 0
   \<and> map_option cs_expiry (getChannel (snd (validateVoucher ex_svc (ex_world 1000 3600) ex_legacy
        (ex_voucher ''0xc1'' ''100'' ''1'') 100 0 0)) ''0xc1'') = Some 3600"
  by (simp add: ex_legacy_def ex_legacy_file_def loadChannel_def eval_defs)

subsection \<open>Paid requests and the ledger\<close>

lemma validate_validE:
  assumes "validateVoucher svc w st voucher c n1 n2 = (res, st1)" and "vr_valid res"
  obtains amount nonce cd chS where
    "BigInt (vh_amount voucher) = Inr amount" and "BigInt (vh_nonce voucher) = Inr nonce"
    and "readChannel w (vh_channelId voucher) = Inr cd"
    and "resolveChannelState st voucher cd n1 n2 = (chS, st1)"
    and "vr_channel res = Some chS" and "cs_totalCharged chS + c \<le> amount"
    and "amount \<le> cd_deposit cd"
  using assms
  by (auto simp add: validateVoucher_def reject_def caught_def Let_def
        split: sum.splits if_splits prod.splits)


lemma resolve_other:
  "c \<noteq> vh_channelId voucher \<Longrightarrow>
     getChannel (snd (resolveChannelState st voucher cd n1 n2)) c = getChannel st c"
  by (simp add: resolveChannelState_def getChannel_def update_conv' split: option.splits)

lemma resolve_deposit:
  "cs_deposit (fst (resolveChannelState st voucher cd n1 n2)) =
     (case getChannel st (vh_channelId voucher) of None \<Rightarrow> cd_deposit cd | Some ch \<Rightarrow> cs_deposit ch)"
  by (simp add: resolveChannelState_def split: option.splits)

lemma paidRequestE:
  assumes "paidRequest svc st rq = Some st'"
  obtains amount nonce cd chS st1 where
    "BigInt (vh_amount (rq_voucher rq)) = Inr amount"
    and "BigInt (vh_nonce (rq_voucher rq)) = Inr nonce"
    and "readChannel (rq_world rq) (vh_channelId (rq_voucher rq)) = Inr cd"
    and "resolveChannelState st (rq_voucher rq) cd (rq_clock rq 0) (rq_clock rq 1) = (chS, st1)"
    and "cs_totalCharged chS + rq_cost rq \<le> amount" and "amount \<le> cd_deposit cd"
    and "st' = committed st1 (rq_voucher rq) chS amount nonce (rq_cost rq) (rq_clock rq 2) (rq_clock rq 3)"
proof -
  obtain res st1 where v: "validateVoucher svc (rq_world rq) st (rq_voucher rq) (rq_cost rq)
             (rq_clock rq 0) (rq_clock rq 1) = (res, st1)"
    by (cases "validateVoucher svc (rq_world rq) st (rq_voucher rq) (rq_cost rq)
             (rq_clock rq 0) (rq_clock rq 1)")
  have valid: "vr_valid res" using assms v
    by (simp add: paidRequest_def split: if_splits)
  from validate_validE[OF v valid] obtain amount nonce cd chS where
    f: "BigInt (vh_amount (rq_voucher rq)) = Inr amount" "BigInt (vh_nonce (rq_voucher rq)) = Inr nonce"
     "readChannel (rq_world rq) (vh_channelId (rq_voucher rq)) = Inr cd"
     "resolveChannelState st (rq_voucher rq) cd (rq_clock rq 0) (rq_clock rq 1) = (chS, st1)"
     "vr_channel res = Some chS" "cs_totalCharged chS + rq_cost rq \<le> amount"
     "amount \<le> cd_deposit cd"
    by blast
  have "st' = committed st1 (rq_voucher rq) chS amount nonce (rq_cost rq) (rq_clock rq 2) (rq_clock rq 3)"
    using assms v valid f
    by (simp add: paidRequest_def storeVoucher_def committed_def Let_def)
  with f show ?thesis using that by blast
qed

lemma committed_same:
  "getChannel (committed st1 voucher chS amount nonce cost n3 n4) (vh_channelId voucher) =
     Some (chS\<lparr>cs_totalCharged := cs_totalCharged chS + cost,
            cs_lastVoucher := Some (Shared (length (vouchers (data st1)))),
            cs_lastActivityAt := n4\<rparr>)"
  by (simp add: committed_def updateChannel_def storage_storeVoucher_def save_def getChannel_def update_conv')

lemma committed_other:
  "c \<noteq> vh_channelId voucher \<Longrightarrow>
   getChannel (committed st1 voucher chS amount nonce cost n3 n4) c = getChannel st1 c"
  by (simp add: committed_def updateChannel_def storage_storeVoucher_def save_def getChannel_def update_conv')

lemma paid_total:
  assumes "paidRequest svc st rq = Some st'"
  shows "cachedTotal st' (vh_channelId (rq_voucher rq)) =
           cachedTotal st (vh_channelId (rq_voucher rq)) + rq_cost rq"
proof -
  from assms obtain amount nonce cd chS st1 where
    am: "BigInt (vh_amount (rq_voucher rq)) = Inr amount"
    and no: "BigInt (vh_nonce (rq_voucher rq)) = Inr nonce"
    and rd: "readChannel (rq_world rq) (vh_channelId (rq_voucher rq)) = Inr cd"
    and r: "resolveChannelState st (rq_voucher rq) cd (rq_clock rq 0) (rq_clock rq 1) = (chS, st1)"
    and le: "cs_totalCharged chS + rq_cost rq \<le> amount" "amount \<le> cd_deposit cd"
    and s: "st' = committed st1 (rq_voucher rq) chS amount nonce (rq_cost rq) (rq_clock rq 2) (rq_clock rq 3)"
    by (rule paidRequestE)
  have "cs_totalCharged chS = cachedTotal st (vh_channelId (rq_voucher rq))"
    using resolve_total[of st "rq_voucher rq" cd "rq_clock rq 0" "rq_clock rq 1"] r by simp
  then show ?thesis
    by (simp add: s cachedTotal_def committed_same)
qed

lemma paid_other:
  assumes "paidRequest svc st rq = Some st'" and "c \<noteq> vh_channelId (rq_voucher rq)"
  shows "getChannel st' c = getChannel st c"
proof -
  from assms(1) obtain amount nonce cd chS st1 where
    am: "BigInt (vh_amount (rq_voucher rq)) = Inr amount"
    and no: "BigInt (vh_nonce (rq_voucher rq)) = Inr nonce"
    and rd: "readChannel (rq_world rq) (vh_channelId (rq_voucher rq)) = Inr cd"
    and r: "resolveChannelState st (rq_voucher rq) cd (rq_clock rq 0) (rq_clock rq 1) = (chS, st1)"
    and le: "cs_totalCharged chS + rq_cost rq \<le> amount" "amount \<le> cd_deposit cd"
    and s: "st' = committed st1 (rq_voucher rq) chS amount nonce (rq_cost rq) (rq_clock rq 2) (rq_clock rq 3)"
    by (rule paidRequestE)
  have "getChannel st1 c = getChannel st c"
    using resolve_other[OF assms(2), of st cd "rq_clock rq 0" "rq_clock rq 1"] r by simp
  then show ?thesis
    by (simp add: s committed_other[OF assms(2)])
qed

lemma paid_bound:
  assumes "paidRequest svc st rq = Some st'"
  obtains cd ch' where
    "readChannel (rq_world rq) (vh_channelId (rq_voucher rq)) = Inr cd"
    and "getChannel st' (vh_channelId (rq_voucher rq)) = Some ch'"
    and "cs_totalCharged ch' \<le> cd_deposit cd"
    and "cs_deposit ch' =
           (case getChannel st (vh_channelId (rq_voucher rq)) of
              None \<Rightarrow> cd_deposit cd | Some ch \<Rightarrow> cs_deposit ch)"
proof -
  from assms obtain amount nonce cd chS st1 where
    am: "BigInt (vh_amount (rq_voucher rq)) = Inr amount"
    and no: "BigInt (vh_nonce (rq_voucher rq)) = Inr nonce"
    and rd: "readChannel (rq_world rq) (vh_channelId (rq_voucher rq)) = Inr cd"
    and r: "resolveChannelState st (rq_voucher rq) cd (rq_clock rq 0) (rq_clock rq 1) = (chS, st1)"
    and le: "cs_totalCharged chS + rq_cost rq \<le> amount" "amount \<le> cd_deposit cd"
    and s: "st' = committed st1 (rq_voucher rq) chS amount nonce (rq_cost rq) (rq_clock rq 2) (rq_clock rq 3)"
    by (rule paidRequestE)
  have d: "cs_deposit chS = (case getChannel st (vh_channelId (rq_voucher rq)) of
              None \<Rightarrow> cd_deposit cd | Some ch \<Rightarrow> cs_deposit ch)"
    using resolve_deposit[of st "rq_voucher rq" cd "rq_clock rq 0" "rq_clock rq 1"] r by simp
  have g: "getChannel st' (vh_channelId (rq_voucher rq)) =
     Some (chS\<lparr>cs_totalCharged := cs_totalCharged chS + rq_cost rq,
            cs_lastVoucher := Some (Shared (length (vouchers (data st1)))),
            cs_lastActivityAt := rq_clock rq 3\<rparr>)"
    by (simp add: s committed_same)
  show ?thesis
    by (rule that[OF rd g]) (use le d in simp_all)
qed

lemma rounds_total:
  "rounds svc st rqs = Some st' \<Longrightarrow>
     cachedTotal st' c =
       cachedTotal st c + sum_list (map rq_cost (filter (\<lambda>rq. vh_channelId (rq_voucher rq) = c) rqs))"
proof (induction rqs arbitrary: st)
  case Nil
  then show ?case by simp
next
  case (Cons rq rqs)
  from Cons.prems obtain st1 where p: "paidRequest svc st rq = Some st1"
    and r: "rounds svc st1 rqs = Some st'"
    by (auto split: option.splits)
  have step: "cachedTotal st1 c =
      cachedTotal st c + (if vh_channelId (rq_voucher rq) = c then rq_cost rq else 0)"
  proof (cases "vh_channelId (rq_voucher rq) = c")
    case True
    then show ?thesis using paid_total[OF p] by simp
  next
    case False
    then have "getChannel st1 c = getChannel st c" using paid_other[OF p, of c] by simp
    then show ?thesis using False by (simp add: cachedTotal_def)
  qed
  show ?case using Cons.IH[OF r] step by simp
qed

lemma rounds_deposit:
  "rounds svc st rqs = Some st' \<Longrightarrow>
   \<forall>rq\<in>set rqs. vh_channelId (rq_voucher rq) = c \<longrightarrow>
      (\<forall>cd. readChannel (rq_world rq) c = Inr cd \<longrightarrow> cd_deposit cd = D) \<Longrightarrow>
   withinDeposit st c D \<Longrightarrow> withinDeposit st' c D"
proof (induction rqs arbitrary: st)
  case Nil
  then show ?case by simp
next
  case (Cons rq rqs)
  from Cons.prems(1) obtain st1 where p: "paidRequest svc st rq = Some st1"
    and r: "rounds svc st1 rqs = Some st'"
    by (auto split: option.splits)
  have "withinDeposit st1 c D"
  proof (cases "vh_channelId (rq_voucher rq) = c")
    case True
    from p obtain cd ch' where rd: "readChannel (rq_world rq) (vh_channelId (rq_voucher rq)) = Inr cd"
      and g: "getChannel st1 (vh_channelId (rq_voucher rq)) = Some ch'"
      and le: "cs_totalCharged ch' \<le> cd_deposit cd"
      and d: "cs_deposit ch' =
           (case getChannel st (vh_channelId (rq_voucher rq)) of
              None \<Rightarrow> cd_deposit cd | Some ch \<Rightarrow> cs_deposit ch)"
      by (rule paid_bound)
    have D: "cd_deposit cd = D" using Cons.prems(2) True rd by simp
    have "cs_deposit ch' = D"
      using d D Cons.prems(3) True by (simp add: withinDeposit_def split: option.splits)
    then show ?thesis using g le D True by (simp add: withinDeposit_def)
  next
    case False
    then have "getChannel st1 c = getChannel st c" using paid_other[OF p, of c] by simp
    then show ?thesis using Cons.prems(3) by (simp add: withinDeposit_def)
  qed
  moreover have "\<forall>rq\<in>set rqs. vh_channelId (rq_voucher rq) = c \<longrightarrow>
      (\<forall>cd. readChannel (rq_world rq) c = Inr cd \<longrightarrow> cd_deposit cd = D)"
    using Cons.prems(2) by simp
  ultimately show ?case using Cons.IH[OF r] by blast
qed

lemma rounds_untouched:
  "rounds svc st rqs = Some st' \<Longrightarrow>
   filter (\<lambda>rq. vh_channelId (rq_voucher rq) = c) rqs = [] \<Longrightarrow>
   getChannel st' c = getChannel st c"
proof (induction rqs arbitrary: st)
  case Nil
  then show ?case by simp
next
  case (Cons rq rqs)
  from Cons.prems(1) obtain st1 where p: "paidRequest svc st rq = Some st1"
    and r: "rounds svc st1 rqs = Some st'"
    by (auto split: option.splits)
  have n: "vh_channelId (rq_voucher rq) \<noteq> c"
    and f: "filter (\<lambda>rq. vh_channelId (rq_voucher rq) = c) rqs = []"
    using Cons.prems(2) by (auto split: if_splits)
  have "getChannel st1 c = getChannel st c" using paid_other[OF p, of c] n by simp
  then show ?case using Cons.IH[OF r f] by simp
qed

lemma rounds_last_bound:
  "rounds svc st rqs = Some st' \<Longrightarrow>
   filter (\<lambda>rq. vh_channelId (rq_voucher rq) = c) rqs \<noteq> [] \<Longrightarrow>
   \<exists>cd ch. readChannel (rq_world (last (filter (\<lambda>rq. vh_channelId (rq_voucher rq) = c) rqs))) c = Inr cd
     \<and> getChannel st' c = Some ch \<and> cs_totalCharged ch \<le> cd_deposit cd"
proof (induction rqs arbitrary: st)
  case Nil
  then show ?case by simp
next
  case (Cons rq rqs)
  let ?f = "filter (\<lambda>rq. vh_channelId (rq_voucher rq) = c)"
  from Cons.prems(1) obtain st1 where p: "paidRequest svc st rq = Some st1"
    and r: "rounds svc st1 rqs = Some st'"
    by (auto split: option.splits)
  show ?case
  proof (cases "?f rqs = []")
    case True
    then have k: "vh_channelId (rq_voucher rq) = c" using Cons.prems(2) by (auto split: if_splits)
    then have l: "last (?f (rq # rqs)) = rq" using True by simp
    from p obtain cd ch' where rd: "readChannel (rq_world rq) (vh_channelId (rq_voucher rq)) = Inr cd"
      and g: "getChannel st1 (vh_channelId (rq_voucher rq)) = Some ch'"
      and le: "cs_totalCharged ch' \<le> cd_deposit cd"
      by (rule paid_bound)
    have "getChannel st' c = getChannel st1 c" by (rule rounds_untouched[OF r True])
    then show ?thesis using rd g le k l by simp
  next
    case False
    then have "last (?f (rq # rqs)) = last (?f rqs)" by simp
    then show ?thesis using Cons.IH[OF r False] by simp
  qed
qed

text \<open>
  C3. Take a channel \<open>c\<close> that the store has not seen (so that its first validation
  hydrates it with \<^verbatim>\<open>totalCharged = 0n\<close>) and any sequence of paid requests, for this and
  for other channels, each validated and then committed with the same cost, at
  least one of them for \<open>c\<close>. Afterwards the cached \<^verbatim>\<open>totalCharged\<close> of \<open>c\<close> is the sum of the
  costs committed for \<open>c\<close>, and it does not exceed the deposit the chain reported at
  the last validation for \<open>c\<close>. The cached \<^verbatim>\<open>deposit\<close> is the one read when the channel was
  hydrated: when the chain reports one and the same deposit \<open>D\<close> for \<open>c\<close> throughout, the
  cached deposit is \<open>D\<close> and \<^verbatim>\<open>totalCharged\<close> does not exceed it.
\<close>

theorem totalCharged_sum_of_costs:
  assumes fresh: "getChannel st c = None"
      and run: "rounds svc st rqs = Some st'"
      and some: "\<exists>rq\<in>set rqs. vh_channelId (rq_voucher rq) = c"
  shows "\<exists>ch cd. getChannel st' c = Some ch
           \<and> cs_totalCharged ch =
               sum_list (map rq_cost (filter (\<lambda>rq. vh_channelId (rq_voucher rq) = c) rqs))
           \<and> readChannel (rq_world (last (filter (\<lambda>rq. vh_channelId (rq_voucher rq) = c) rqs))) c
               = Inr cd
           \<and> cs_totalCharged ch \<le> cd_deposit cd
           \<and> (\<forall>D. (\<forall>rq\<in>set rqs. vh_channelId (rq_voucher rq) = c \<longrightarrow>
                      (\<forall>cd. readChannel (rq_world rq) c = Inr cd \<longrightarrow> cd_deposit cd = D))
                 \<longrightarrow> cs_deposit ch = D \<and> cs_totalCharged ch \<le> cs_deposit ch)"
proof -
  have ne: "filter (\<lambda>rq. vh_channelId (rq_voucher rq) = c) rqs \<noteq> []"
    using some by (simp add: filter_empty_conv)
  from rounds_last_bound[OF run ne] obtain cd ch
    where rd: "readChannel (rq_world (last (filter (\<lambda>rq. vh_channelId (rq_voucher rq) = c) rqs))) c
                 = Inr cd"
      and g: "getChannel st' c = Some ch" and le: "cs_totalCharged ch \<le> cd_deposit cd"
    by blast
  have "cachedTotal st' c =
       cachedTotal st c + sum_list (map rq_cost (filter (\<lambda>rq. vh_channelId (rq_voucher rq) = c) rqs))"
    by (rule rounds_total[OF run])
  then have t: "cs_totalCharged ch =
       sum_list (map rq_cost (filter (\<lambda>rq. vh_channelId (rq_voucher rq) = c) rqs))"
    using g fresh by (simp add: cachedTotal_def)
  have d: "cs_deposit ch = D \<and> cs_totalCharged ch \<le> cs_deposit ch"
    if dep: "\<forall>rq\<in>set rqs. vh_channelId (rq_voucher rq) = c \<longrightarrow>
                (\<forall>cd. readChannel (rq_world rq) c = Inr cd \<longrightarrow> cd_deposit cd = D)" for D
  proof -
    have "withinDeposit st c D" using fresh by (simp add: withinDeposit_def)
    then have "withinDeposit st' c D" by (rule rounds_deposit[OF run dep])
    then show ?thesis using g by (simp add: withinDeposit_def)
  qed
  show ?thesis using g t rd le d by blast
qed

lemma list_all_update:
  "list_all P al \<Longrightarrow> P (k, v) \<Longrightarrow> list_all P (AList.update k v al)"
  by (induction al) auto

lemma list_all_map_of:
  "list_all P al \<Longrightarrow> map_of al k = Some v \<Longrightarrow> P (k, v)"
  by (induction al) (auto split: if_splits)

lemma channelOk_append: "channelOk vs ch \<Longrightarrow> channelOk (vs @ [v]) ch"
  by (auto simp add: channelOk_def nth_append split: option.splits VoucherRef.splits)

lemma channelOk_expiry: "channelOk vs (ch\<lparr>cs_expiry := e\<rparr>) = channelOk vs ch"
  by (simp add: channelOk_def split: option.splits VoucherRef.splits)

lemma ledgerOk_channel:
  "ledgerOk st \<Longrightarrow> getChannel st c = Some ch \<Longrightarrow> channelOk (vouchers (data st)) ch"
  using list_all_map_of[of "\<lambda>(channelId, ch). channelOk (vouchers (data st)) ch" "channels (data st)" c ch]
  by (simp add: ledgerOk_def getChannel_def)

lemma channelOk_bound:
  "channelOk (vouchers d) ch \<Longrightarrow> lastVoucherOf d ch = Some lv \<Longrightarrow> cs_totalCharged ch \<le> sv_amount lv"
  by (auto simp add: channelOk_def lastVoucherOf_def deref_def split: option.splits VoucherRef.splits if_splits)

lemma resolve_ledgerOk:
  assumes "ledgerOk st"
  shows "ledgerOk (snd (resolveChannelState st voucher cd n1 n2))"
proof (cases "getChannel st (vh_channelId voucher)")
  case None
  then show ?thesis using assms by (simp add: resolveChannelState_def)
next
  case (Some ch)
  have "channelOk (vouchers (data st)) ch" by (rule ledgerOk_channel[OF assms Some])
  then show ?thesis using assms Some
    by (simp add: resolveChannelState_def ledgerOk_def list_all_update channelOk_expiry)
qed

lemma list_all_mono_pair:
  "list_all P al \<Longrightarrow> (\<And>x. P x \<Longrightarrow> Q x) \<Longrightarrow> list_all Q al"
  by (induction al) auto

lemma committed_ledgerOk:
  assumes ok: "ledgerOk st1" and le: "cs_totalCharged chS + cost \<le> amount"
  shows "ledgerOk (committed st1 voucher chS amount nonce cost n3 n4)"
proof -
  let ?sv = "\<lparr>sv_channelId = vh_channelId voucher, sv_amount = amount, sv_nonce = nonce,
           sv_signature = vh_signature voucher, sv_consumer = cs_consumer chS,
           sv_receivedAt = n3, sv_claimed = False, sv_claimedAt = None,
           sv_claimTxHash = None\<rparr>"
  let ?vs = "vouchers (data st1)"
  let ?ch = "chS\<lparr>cs_totalCharged := cs_totalCharged chS + cost,
            cs_lastVoucher := Some (Shared (length ?vs)),
            cs_lastActivityAt := n4\<rparr>"
  have a: "list_all (\<lambda>(channelId, ch). channelOk (?vs @ [?sv]) ch) (channels (data st1))"
    using ok unfolding ledgerOk_def
    by (rule list_all_mono_pair) (auto intro: channelOk_append)
  have b: "channelOk (?vs @ [?sv]) ?ch"
    using le by (simp add: channelOk_def)
  have "list_all (\<lambda>(channelId, ch). channelOk (?vs @ [?sv]) ch)
          (AList.update (vh_channelId voucher) ?ch (channels (data st1)))"
    using a b by (simp add: list_all_update)
  then show ?thesis
    by (simp add: ledgerOk_def committed_def updateChannel_def storage_storeVoucher_def save_def)
qed

lemma paid_ledgerOk:
  assumes "paidRequest svc st rq = Some st'" and ok: "ledgerOk st"
  shows "ledgerOk st'"
proof -
  from assms(1) obtain amount nonce cd chS st1 where
    am: "BigInt (vh_amount (rq_voucher rq)) = Inr amount"
    and no: "BigInt (vh_nonce (rq_voucher rq)) = Inr nonce"
    and rd: "readChannel (rq_world rq) (vh_channelId (rq_voucher rq)) = Inr cd"
    and r: "resolveChannelState st (rq_voucher rq) cd (rq_clock rq 0) (rq_clock rq 1) = (chS, st1)"
    and le: "cs_totalCharged chS + rq_cost rq \<le> amount" "amount \<le> cd_deposit cd"
    and s: "st' = committed st1 (rq_voucher rq) chS amount nonce (rq_cost rq) (rq_clock rq 2) (rq_clock rq 3)"
    by (rule paidRequestE)
  have "ledgerOk st1"
    using resolve_ledgerOk[OF ok, of "rq_voucher rq" cd "rq_clock rq 0" "rq_clock rq 1"] r by simp
  then show ?thesis unfolding s using le(1) by (rule committed_ledgerOk)
qed

lemma rounds_ledgerOk:
  "rounds svc st rqs = Some st' \<Longrightarrow> ledgerOk st \<Longrightarrow> ledgerOk st'"
proof (induction rqs arbitrary: st)
  case Nil
  then show ?case by simp
next
  case (Cons rq rqs)
  from Cons.prems(1) obtain st1 where p: "paidRequest svc st rq = Some st1"
    and r: "rounds svc st1 rqs = Some st'"
    by (auto split: option.splits)
  show ?case by (rule Cons.IH[OF r paid_ledgerOk[OF p Cons.prems(2)]])
qed

lemma validate_amount_covers:
  assumes v: "vr_valid (fst (validateVoucher svc w st voucher cost n1 n2))"
      and a: "BigInt (vh_amount voucher) = Inr amount"
  shows "cachedTotal st (vh_channelId voucher) + cost \<le> amount"
proof -
  obtain res st1 where e: "validateVoucher svc w st voucher cost n1 n2 = (res, st1)"
    by (cases "validateVoucher svc w st voucher cost n1 n2")
  have valid: "vr_valid res" using v e by simp
  from e valid obtain amount' nonce cd chS where
    a': "BigInt (vh_amount voucher) = Inr amount'" and "BigInt (vh_nonce voucher) = Inr nonce"
    and "readChannel w (vh_channelId voucher) = Inr cd"
    and r: "resolveChannelState st voucher cd n1 n2 = (chS, st1)"
    and "vr_channel res = Some chS" and le: "cs_totalCharged chS + cost \<le> amount'"
    and "amount' \<le> cd_deposit cd"
    by (rule validate_validE)
  have "cs_totalCharged chS = cachedTotal st (vh_channelId voucher)"
    using resolve_total[of st voucher cd n1 n2] r by simp
  then show ?thesis using le a a' by simp
qed

text \<open>
  C2, as the code has it. \<^verbatim>\<open>storeVoucher\<close> adds the cost to \<^verbatim>\<open>totalCharged\<close> and records
  the voucher, so the two need not be equal; what validation guarantees is that
  \<^verbatim>\<open>totalCharged\<close> never exceeds the amount of \<^verbatim>\<open>lastVoucher\<close>. Starting from a store where
  this holds (the empty store, for one), after any sequence of paid requests with
  non-negative costs: for every cached channel with a \<^verbatim>\<open>lastVoucher\<close>,
  \<^verbatim>\<open>totalCharged \<le> lastVoucher.amount\<close>; no channel's \<^verbatim>\<open>totalCharged\<close> has decreased; and a
  voucher accepted next for a non-negative charge has an amount that is at least the
  \<^verbatim>\<open>totalCharged\<close> before it.
\<close>

theorem ledger_bounded_and_monotone:
  assumes ok: "ledgerOk st"
      and run: "rounds svc st rqs = Some st'"
      and pos: "\<forall>rq\<in>set rqs. 0 \<le> rq_cost rq"
  shows "(\<forall>c ch lv. getChannel st' c = Some ch \<longrightarrow> lastVoucherOf (data st') ch = Some lv
             \<longrightarrow> cs_totalCharged ch \<le> sv_amount lv)
       \<and> (\<forall>c. cachedTotal st c \<le> cachedTotal st' c)
       \<and> (\<forall>w voucher cost amount n1 n2.
             0 \<le> cost \<longrightarrow> BigInt (vh_amount voucher) = Inr amount
             \<longrightarrow> vr_valid (fst (validateVoucher svc w st' voucher cost n1 n2))
             \<longrightarrow> cachedTotal st' (vh_channelId voucher) \<le> amount)"
proof (intro conjI allI impI)
  fix c ch lv
  assume g: "getChannel st' c = Some ch" and l: "lastVoucherOf (data st') ch = Some lv"
  have "ledgerOk st'" by (rule rounds_ledgerOk[OF run ok])
  then have "channelOk (vouchers (data st')) ch" using g by (rule ledgerOk_channel)
  then show "cs_totalCharged ch \<le> sv_amount lv" using l by (rule channelOk_bound)
next
  fix c
  have "0 \<le> sum_list (map rq_cost (filter (\<lambda>rq. vh_channelId (rq_voucher rq) = c) rqs))"
    using pos by (intro sum_list_nonneg) auto
  then show "cachedTotal st c \<le> cachedTotal st' c"
    using rounds_total[OF run, of c] by simp
next
  fix w voucher cost amount n1 n2
  assume "0 \<le> cost" and "BigInt (vh_amount voucher) = Inr amount"
    and "vr_valid (fst (validateVoucher svc w st' voucher cost n1 n2))"
  then show "cachedTotal st' (vh_channelId voucher) \<le> amount"
    using validate_amount_covers[of svc w st' voucher cost n1 n2 amount] by simp
qed

theorem totalCharged_sum_of_costs_witness:
  "getChannel ex_empty ''0xc1'' = None
   \<and> rounds ex_svc ex_empty ex_two_requests = Some ex_two
   \<and> map_option cs_totalCharged (getChannel ex_two ''0xc1'') = Some (100 + 250)
   \<and> map_option cs_deposit (getChannel ex_two ''0xc1'') = Some 1000
   \<and> cachedTotal ex_two ''0xc1'' \<le> 1000"
proof -
  have fresh: "getChannel ex_empty ''0xc1'' = None"
    by (simp add: eval_defs)
  have run: "rounds ex_svc ex_empty ex_two_requests = Some ex_two"
    by (simp add: ex_two_def ex_two_requests_def eval_defs)
  have some: "\<exists>rq\<in>set ex_two_requests. vh_channelId (rq_voucher rq) = ''0xc1''"
    by (simp add: ex_two_requests_def ex_request_def ex_voucher_def)
  have dep: "\<forall>rq\<in>set ex_two_requests. vh_channelId (rq_voucher rq) = ''0xc1'' \<longrightarrow>
               (\<forall>cd. readChannel (rq_world rq) ''0xc1'' = Inr cd \<longrightarrow> cd_deposit cd = 1000)"
    by (auto simp add: ex_two_requests_def ex_request_def ex_world_def ex_channelData_def)
  have costs: "sum_list (map rq_cost
                 (filter (\<lambda>rq. vh_channelId (rq_voucher rq) = ''0xc1'') ex_two_requests)) = 100 + 250"
    by (simp add: ex_two_requests_def ex_request_def ex_voucher_def)
  from totalCharged_sum_of_costs[OF fresh run some] obtain ch cd
    where g: "getChannel ex_two ''0xc1'' = Some ch"
      and t: "cs_totalCharged ch = sum_list (map rq_cost
                 (filter (\<lambda>rq. vh_channelId (rq_voucher rq) = ''0xc1'') ex_two_requests))"
      and d: "\<forall>D. (\<forall>rq\<in>set ex_two_requests. vh_channelId (rq_voucher rq) = ''0xc1'' \<longrightarrow>
                      (\<forall>cd. readChannel (rq_world rq) ''0xc1'' = Inr cd \<longrightarrow> cd_deposit cd = D))
                 \<longrightarrow> cs_deposit ch = D \<and> cs_totalCharged ch \<le> cs_deposit ch"
    by blast
  from d dep have b: "cs_deposit ch = 1000 \<and> cs_totalCharged ch \<le> cs_deposit ch" by blast
  have 1: "map_option cs_totalCharged (getChannel ex_two ''0xc1'') = Some (100 + 250)"
    using g t costs by simp
  have 2: "map_option cs_deposit (getChannel ex_two ''0xc1'') = Some 1000"
    using g b by simp
  have 3: "cachedTotal ex_two ''0xc1'' \<le> 1000"
    using g b by (simp add: cachedTotal_def)
  show ?thesis using fresh run 1 2 3 by blast
qed

theorem ledger_bounded_and_monotone_witness:
  "ledgerOk ex_empty
   \<and> rounds ex_svc ex_empty [ex_request 1000 ''500'' ''1'' 100] = Some ex_overpaid
   \<and> getChannel ex_overpaid ''0xc1'' \<noteq> None
   \<and> cachedLastVoucher ex_overpaid ''0xc1'' \<noteq> None
   \<and> cs_totalCharged (the (getChannel ex_overpaid ''0xc1''))
        \<le> sv_amount (the (cachedLastVoucher ex_overpaid ''0xc1''))
   \<and> cachedTotal ex_empty ''0xc1'' \<le> cachedTotal ex_overpaid ''0xc1''
   \<and> cachedTotal ex_overpaid ''0xc1'' \<le> 700"
proof -
  let ?v = "ex_voucher ''0xc1'' ''700'' ''2''"
  let ?w = "ex_world 1000 3600"
  have ok: "ledgerOk ex_empty" by (simp add: ex_overpaid_def ex_two_def ex_two_requests_def channelOk_def ledgerOk_def eval_defs)
  have run: "rounds ex_svc ex_empty [ex_request 1000 ''500'' ''1'' 100] = Some ex_overpaid"
    by (simp add: ex_overpaid_def ex_two_def ex_two_requests_def channelOk_def ledgerOk_def eval_defs)
  have pos: "\<forall>rq\<in>set [ex_request 1000 ''500'' ''1'' 100]. 0 \<le> rq_cost rq"
    by (simp add: ex_request_def)
  have g: "getChannel ex_overpaid ''0xc1'' = Some (the (getChannel ex_overpaid ''0xc1''))"
    by (simp add: ex_overpaid_def ex_two_def ex_two_requests_def channelOk_def ledgerOk_def eval_defs)
  have l: "lastVoucherOf (data ex_overpaid) (the (getChannel ex_overpaid ''0xc1''))
             = Some (the (cachedLastVoucher ex_overpaid ''0xc1''))"
    by (simp add: ex_overpaid_def ex_two_def ex_two_requests_def channelOk_def ledgerOk_def eval_defs)
  have l': "cachedLastVoucher ex_overpaid ''0xc1'' \<noteq> None" by (simp add: ex_overpaid_def ex_two_def ex_two_requests_def channelOk_def ledgerOk_def eval_defs)
  have a: "BigInt (vh_amount ?v) = Inr 700" by (simp add: ex_overpaid_def ex_two_def ex_two_requests_def channelOk_def ledgerOk_def eval_defs)
  have v: "vr_valid (fst (validateVoucher ex_svc ?w ex_overpaid ?v 200 0 0))" by (simp add: ex_overpaid_def ex_two_def ex_two_requests_def channelOk_def ledgerOk_def eval_defs)
  have c: "vh_channelId ?v = ''0xc1''" by (simp add: ex_voucher_def)
  note inst = ledger_bounded_and_monotone[OF ok run pos]
  have 1: "cs_totalCharged (the (getChannel ex_overpaid ''0xc1''))
        \<le> sv_amount (the (cachedLastVoucher ex_overpaid ''0xc1''))"
    using inst g l by blast
  have 2: "cachedTotal ex_empty ''0xc1'' \<le> cachedTotal ex_overpaid ''0xc1''"
    using inst by blast
  have "(0::int) \<le> 200" by simp
  then have "cachedTotal ex_overpaid (vh_channelId ?v) \<le> 700"
    using inst a v by blast
  then have 3: "cachedTotal ex_overpaid ''0xc1'' \<le> 700" using c by simp
  show ?thesis using ok run g l' 1 2 3 by blast
qed

text \<open>
  C2 as the specification words it fails: after one paid request of cost 100 paid
  with a voucher for 500, the channel's \<^verbatim>\<open>totalCharged\<close> is 100 and the amount of its
  \<^verbatim>\<open>lastVoucher\<close> is 500.
\<close>

theorem totalCharged_equals_lastVoucher_counterexample:
  "rounds ex_svc ex_empty [ex_request 1000 ''500'' ''1'' 100] = Some ex_overpaid
   \<and> map_option cs_totalCharged (getChannel ex_overpaid ''0xc1'') = Some 100
   \<and> map_option sv_amount (cachedLastVoucher ex_overpaid ''0xc1'') = Some 500"
  by (simp add: ex_overpaid_def ex_two_def ex_two_requests_def channelOk_def ledgerOk_def eval_defs)

subsection \<open>Saving and reloading\<close>

lemma digitVal_digitChar: "d < 10 \<Longrightarrow> digitVal (digitChar d) = Some d"
  by (simp add: digitVal_def digitChar_def)

lemma isDecimalDigit_digitChar: "d < 10 \<Longrightarrow> isDecimalDigit (digitChar d)"
  by (simp add: isDecimalDigit_def digitChar_def)

lemma digitsValue_append:
  "digitsValue b acc (xs @ ys) =
     (case digitsValue b acc xs of None \<Rightarrow> None | Some a \<Rightarrow> digitsValue b a ys)"
  by (induction xs arbitrary: acc) (simp_all split: option.splits)

lemma natToDigits_nonempty: "natToDigits n \<noteq> []"
  by (subst natToDigits.simps) simp

lemma natToDigits_digits: "\<forall>c \<in> set (natToDigits n). isDecimalDigit c"
proof (induction n rule: natToDigits.induct)
  case (1 n)
  show ?case
  proof (cases "n < 10")
    case True
    then show ?thesis
      by (subst natToDigits.simps) (simp add: isDecimalDigit_digitChar)
  next
    case False
    then have "\<forall>c \<in> set (natToDigits (n div 10)). isDecimalDigit c" using 1 by simp
    then show ?thesis using False
      by (subst natToDigits.simps) (simp add: isDecimalDigit_digitChar)
  qed
qed

lemma digitsValue_natToDigits: "digitsValue 10 0 (natToDigits n) = Some n"
proof (induction n rule: natToDigits.induct)
  case (1 n)
  show ?case
  proof (cases "n < 10")
    case True
    then show ?thesis
      by (subst natToDigits.simps) (simp add: digitVal_digitChar)
  next
    case False
    then have "digitsValue 10 0 (natToDigits (n div 10)) = Some (n div 10)" using 1 by simp
    then show ?thesis using False
      by (subst natToDigits.simps) (simp add: digitsValue_append digitVal_digitChar)
  qed
qed

lemma parseDigits_natToDigits: "parseDigits 10 (natToDigits n) = Some n"
  by (simp add: parseDigits_def natToDigits_nonempty digitsValue_natToDigits)

lemma digit_not_space: "isDecimalDigit c \<Longrightarrow> \<not> isStrWhiteSpace c"
  by (auto simp add: isDecimalDigit_def isStrWhiteSpace_def)

lemma trimString_id:
  assumes "s \<noteq> []" and "\<not> isStrWhiteSpace (hd s)" and "\<not> isStrWhiteSpace (last s)"
  shows "trimString s = s"
proof -
  have a: "dropWhile isStrWhiteSpace s = s"
    using assms(2) by (simp add: dropWhile_eq_self_iff)
  have "hd (rev s) = last s" using assms(1) by (simp add: hd_rev)
  then have b: "dropWhile isStrWhiteSpace (rev s) = rev s"
    using assms(3) by (simp add: dropWhile_eq_self_iff)
  show ?thesis by (simp add: trimString_def a b)
qed

lemma natToDigits_ends:
  "isDecimalDigit (hd (natToDigits n))" "isDecimalDigit (last (natToDigits n))"
  using natToDigits_digits[of n] natToDigits_nonempty[of n] by simp_all

lemma isDecimalDigit_chars:
  "isDecimalDigit c \<Longrightarrow>
     c \<noteq> CHR ''+'' \<and> c \<noteq> CHR ''-'' \<and> c \<noteq> CHR ''x'' \<and> c \<noteq> CHR ''X'' \<and> c \<noteq> CHR ''o''
     \<and> c \<noteq> CHR ''O'' \<and> c \<noteq> CHR ''b'' \<and> c \<noteq> CHR ''B''"
  by (auto simp add: isDecimalDigit_def)

lemma StringToBigInt_natToDigits: "StringToBigInt (natToDigits n) = Some (int n)"
proof -
  obtain c r where s: "natToDigits n = c # r"
    using natToDigits_nonempty[of n] by (cases "natToDigits n") auto
  have c: "isDecimalDigit c" using natToDigits_ends(1)[of n] s by simp
  have l: "isDecimalDigit (last (c # r))" using natToDigits_ends(2)[of n] s by simp
  have t: "trimString (c # r) = c # r"
    using c l by (intro trimString_id) (simp_all add: digit_not_space)
  have r: "r \<noteq> [] \<Longrightarrow> isDecimalDigit (hd r)"
    using natToDigits_digits[of n] s by (cases r) simp_all
  have p: "parseDigits 10 (c # r) = Some n" using parseDigits_natToDigits[of n] s by simp
  have nc: "c \<noteq> CHR ''+''" "c \<noteq> CHR ''-''"
    using isDecimalDigit_chars[OF c] by simp_all
  have nx: "\<not> (c = CHR ''0'' \<and> r \<noteq> [] \<and> hd r \<in> {CHR ''x'', CHR ''X''})"
    using r isDecimalDigit_chars[of "hd r"] by blast
  have no: "\<not> (c = CHR ''0'' \<and> r \<noteq> [] \<and> hd r \<in> {CHR ''o'', CHR ''O''})"
    using r isDecimalDigit_chars[of "hd r"] by blast
  have nb: "\<not> (c = CHR ''0'' \<and> r \<noteq> [] \<and> hd r \<in> {CHR ''b'', CHR ''B''})"
    using r isDecimalDigit_chars[of "hd r"] by blast
  have "StringToBigInt (c # r) = map_option int (parseDigits 10 (c # r))"
    unfolding StringToBigInt_def t using nc nx no nb by (simp only: list.case if_False)
  then show ?thesis by (simp add: s p)
qed

lemma StringToBigInt_toString: "StringToBigInt (toString n) = Some n"
proof (cases "n < 0")
  case True
  let ?ds = "natToDigits (nat (- n))"
  have l: "\<not> isStrWhiteSpace (last (CHR ''-'' # ?ds))"
    using natToDigits_ends(2)[of "nat (- n)"] natToDigits_nonempty[of "nat (- n)"]
    by (simp add: digit_not_space)
  have t: "trimString (CHR ''-'' # ?ds) = CHR ''-'' # ?ds"
    using l by (intro trimString_id) (simp_all add: isStrWhiteSpace_def)
  show ?thesis
    using True by (simp add: StringToBigInt_def toString_def t parseDigits_natToDigits)
next
  case False
  then show ?thesis
    by (simp add: toString_def StringToBigInt_natToDigits)
qed

lemma BigInt_toString: "BigInt (toString n) = Inr n"
  by (simp add: BigInt_def StringToBigInt_toString)

lemma loadVoucher_serVoucher: "loadVoucher (serVoucher v) = Some v"
  by (simp add: loadVoucher_def serVoucher_def BigInt_toString)

lemma loadVouchers_ser: "loadVouchers (map serVoucher vs) = Some vs"
  by (induction vs) (simp_all add: loadVoucher_serVoucher)

lemma loadChannel_serChannel: "loadChannel (serChannel vs ch) = Some (ownCopy vs ch)"
  by (cases "cs_lastVoucher ch")
     (auto simp add: loadChannel_def serChannel_def ownCopy_def BigInt_toString
        loadVoucher_serVoucher split: option.splits)

lemma loadChannels_ser:
  "loadChannels (map (\<lambda>(channelId, ch). (channelId, serChannel vs ch)) chs) =
     Some (map (\<lambda>(channelId, ch). (channelId, ownCopy vs ch)) chs)"
  by (induction chs) (auto simp add: loadChannel_serChannel)

lemma load_serializable: "load (Some (serializable d)) = reloaded d"
  by (simp add: load_def serializable_def reloaded_def loadVouchers_ser loadChannels_ser)

lemma lastVoucherOf_ownCopy:
  "lastVoucherOf (reloaded d) (ownCopy (vouchers d) ch) = lastVoucherOf d ch"
  by (auto simp add: lastVoucherOf_def ownCopy_def reloaded_def deref_def
        split: option.splits VoucherRef.splits)

lemma getChannel_reloaded:
  "map_of (channels (reloaded d)) c = map_option (ownCopy (vouchers d)) (map_of (channels d) c)"
  by (simp add: reloaded_def map_of_map)

lemma restart_saved:
  "fileContent st = Some (serializable (data st)) \<Longrightarrow> data (restart st) = reloaded (data st)"
  by (simp add: restart_def newVoucherStorage_def load_serializable)

lemma writers_save:
  "fileContent (storage_storeVoucher st v) = Some (serializable (data (storage_storeVoucher st v)))"
  "fileContent (updateChannel st c ch) = Some (serializable (data (updateChannel st c ch)))"
  "fileContent (markClaimed st c tx nowAt) = Some (serializable (data (markClaimed st c tx nowAt)))"
  by (simp_all add: storage_storeVoucher_def updateChannel_def markClaimed_def save_def)

text \<open>
  C9. After each write of the store (\<^verbatim>\<open>VoucherStorage.storeVoucher\<close>, \<^verbatim>\<open>updateChannel\<close>,
  \<^verbatim>\<open>markClaimed\<close>, and so \<^verbatim>\<open>DrainService.storeVoucher\<close>, which ends in \<^verbatim>\<open>updateChannel\<close>), a
  restart on the file that was written gives back the same voucher list, the same
  channel ids in the same order and, for every channel, a state with the same fields:
  the same deposit and \<^verbatim>\<open>totalCharged\<close> and a \<^verbatim>\<open>lastVoucher\<close> equal field by field (amount
  and nonce included) to the one in memory before the restart.
\<close>

theorem storage_round_trip:
  assumes w: "st' = storage_storeVoucher st v \<or> st' = updateChannel st c state
              \<or> st' = markClaimed st c tx nowAt
              \<or> storeVoucher st voucher state cost now1 now2 = Inr st'"
  shows "vouchers (data (restart st')) = vouchers (data st')
       \<and> map fst (channels (data (restart st'))) = map fst (channels (data st'))
       \<and> totalEarned (data (restart st')) = totalEarned (data st')
       \<and> totalClaimed (data (restart st')) = totalClaimed (data st')
       \<and> (\<forall>k. case getChannel st' k of
                None \<Rightarrow> getChannel (restart st') k = None
              | Some ch \<Rightarrow>
                  (\<exists>ch'. getChannel (restart st') k = Some ch'
                     \<and> ch' = ch\<lparr>cs_lastVoucher := cs_lastVoucher ch'\<rparr>
                     \<and> cs_deposit ch' = cs_deposit ch
                     \<and> cs_totalCharged ch' = cs_totalCharged ch
                     \<and> lastVoucherOf (data (restart st')) ch' = lastVoucherOf (data st') ch))"
proof -
  have "storeVoucher st voucher state cost now1 now2 = Inr st' \<Longrightarrow>
          fileContent st' = Some (serializable (data st'))"
    by (auto simp add: storeVoucher_def Let_def writers_save split: sum.splits)
  then have f: "fileContent st' = Some (serializable (data st'))"
    using w writers_save by blast
  have d: "data (restart st') = reloaded (data st')" by (rule restart_saved[OF f])
  have g: "getChannel (restart st') k = map_option (ownCopy (vouchers (data st'))) (getChannel st' k)" for k
    by (simp add: getChannel_def d getChannel_reloaded)
  have l: "lastVoucherOf (data (restart st')) (ownCopy (vouchers (data st')) ch) =
             lastVoucherOf (data st') ch" for ch
    by (simp add: d lastVoucherOf_ownCopy)
  have o: "ownCopy vs ch = ch\<lparr>cs_lastVoucher := cs_lastVoucher (ownCopy vs ch)\<rparr>" for vs ch
    by (simp add: ownCopy_def)
  have "\<forall>k. case getChannel st' k of
                None \<Rightarrow> getChannel (restart st') k = None
              | Some ch \<Rightarrow>
                  (\<exists>ch'. getChannel (restart st') k = Some ch'
                     \<and> ch' = ch\<lparr>cs_lastVoucher := cs_lastVoucher ch'\<rparr>
                     \<and> cs_deposit ch' = cs_deposit ch
                     \<and> cs_totalCharged ch' = cs_totalCharged ch
                     \<and> lastVoucherOf (data (restart st')) ch' = lastVoucherOf (data st') ch)"
  proof
    fix k
    show "case getChannel st' k of
                None \<Rightarrow> getChannel (restart st') k = None
              | Some ch \<Rightarrow>
                  (\<exists>ch'. getChannel (restart st') k = Some ch'
                     \<and> ch' = ch\<lparr>cs_lastVoucher := cs_lastVoucher ch'\<rparr>
                     \<and> cs_deposit ch' = cs_deposit ch
                     \<and> cs_totalCharged ch' = cs_totalCharged ch
                     \<and> lastVoucherOf (data (restart st')) ch' = lastVoucherOf (data st') ch)"
    proof (cases "getChannel st' k")
      case None
      then show ?thesis by (simp add: g)
    next
      case (Some ch)
      have "getChannel (restart st') k = Some (ownCopy (vouchers (data st')) ch)"
        using Some by (simp add: g)
      moreover have "cs_deposit (ownCopy (vouchers (data st')) ch) = cs_deposit ch"
        "cs_totalCharged (ownCopy (vouchers (data st')) ch) = cs_totalCharged ch"
        by (simp_all add: ownCopy_def)
      ultimately show ?thesis
        using Some l[of ch] o[of "vouchers (data st')" ch] by auto
    qed
  qed
  moreover have "vouchers (data (restart st')) = vouchers (data st')"
    "map fst (channels (data (restart st'))) = map fst (channels (data st'))"
    "totalEarned (data (restart st')) = totalEarned (data st')"
    "totalClaimed (data (restart st')) = totalClaimed (data st')"
    by (simp_all add: d reloaded_def comp_def case_prod_unfold)
  ultimately show ?thesis by blast
qed

theorem storage_round_trip_witness:
  "storeVoucher ex_empty (ex_voucher ''0xc1'' ''100'' ''1'') ex_channel 100 12 13 = Inr ex_committed
   \<and> map_option cs_totalCharged (getChannel ex_committed ''0xc1'') = Some 100
   \<and> map_option cs_totalCharged (getChannel (restart ex_committed) ''0xc1'') = Some 100
   \<and> map_option cs_deposit (getChannel (restart ex_committed) ''0xc1'') = Some 1000
   \<and> map_option sv_amount (cachedLastVoucher ex_committed ''0xc1'') = Some 100
   \<and> map_option sv_amount (cachedLastVoucher (restart ex_committed) ''0xc1'') = Some 100
   \<and> vouchers (data (restart ex_committed)) = vouchers (data ex_committed)"
proof -
  let ?ch = "ex_channel\<lparr>cs_totalCharged := 100, cs_lastVoucher := Some (Shared 0),
                         cs_lastActivityAt := 13\<rparr>"
  have s: "storeVoucher ex_empty (ex_voucher ''0xc1'' ''100'' ''1'') ex_channel 100 12 13 = Inr ex_committed"
    by (simp add: ex_committed_def committed_def ex_channel_def eval_defs)
  have g: "getChannel ex_committed ''0xc1'' = Some ?ch"
    by (simp add: ex_committed_def committed_def ex_channel_def eval_defs)
  have a: "map_option sv_amount (lastVoucherOf (data ex_committed) ?ch) = Some 100"
    by (simp add: ex_committed_def committed_def ex_channel_def eval_defs)
  note inst = storage_round_trip[OF disjI2[OF disjI2[OF disjI2[OF s]]]]
  from inst have "case getChannel ex_committed ''0xc1'' of
                None \<Rightarrow> getChannel (restart ex_committed) ''0xc1'' = None
              | Some ch \<Rightarrow>
                  (\<exists>ch'. getChannel (restart ex_committed) ''0xc1'' = Some ch'
                     \<and> ch' = ch\<lparr>cs_lastVoucher := cs_lastVoucher ch'\<rparr>
                     \<and> cs_deposit ch' = cs_deposit ch
                     \<and> cs_totalCharged ch' = cs_totalCharged ch
                     \<and> lastVoucherOf (data (restart ex_committed)) ch' =
                         lastVoucherOf (data ex_committed) ch)"
    by blast
  then obtain ch' where r: "getChannel (restart ex_committed) ''0xc1'' = Some ch'"
    and d: "cs_deposit ch' = cs_deposit ?ch" and t: "cs_totalCharged ch' = cs_totalCharged ?ch"
    and l: "lastVoucherOf (data (restart ex_committed)) ch' = lastVoucherOf (data ex_committed) ?ch"
    using g by auto
  have 1: "map_option cs_totalCharged (getChannel ex_committed ''0xc1'') = Some 100"
    using g by simp
  have 2: "map_option cs_totalCharged (getChannel (restart ex_committed) ''0xc1'') = Some 100"
    using r t by simp
  have 3: "map_option cs_deposit (getChannel (restart ex_committed) ''0xc1'') = Some 1000"
    using r d by (simp add: ex_channel_def)
  have 4: "map_option sv_amount (cachedLastVoucher ex_committed ''0xc1'') = Some 100"
    using g a by (simp add: cachedLastVoucher_def)
  have 5: "map_option sv_amount (cachedLastVoucher (restart ex_committed) ''0xc1'') = Some 100"
    using r l a by (simp add: cachedLastVoucher_def)
  have 6: "vouchers (data (restart ex_committed)) = vouchers (data ex_committed)"
    using inst by blast
  show ?thesis using s 1 2 3 4 5 6 by blast
qed

subsection \<open>Marking vouchers claimed\<close>

lemma length_markLoop: "length (markLoop c tx nowAt i vs) = length vs"
  by (induction vs arbitrary: i) simp_all

lemma nth_markLoop:
  "j < length vs \<Longrightarrow>
   markLoop c tx nowAt i vs ! j =
     (if sv_channelId (vs ! j) = c \<and> \<not> sv_claimed (vs ! j)
      then (vs ! j)\<lparr>sv_claimed := True, sv_claimedAt := Some (nowAt (i + j)),
                     sv_claimTxHash := Some tx\<rparr>
      else vs ! j)"
proof (induction vs arbitrary: i j)
  case Nil
  then show ?case by simp
next
  case (Cons v vs)
  show ?case
  proof (cases j)
    case 0
    then show ?thesis by simp
  next
    case (Suc k)
    then have "k < length vs" using Cons.prems by simp
    from Cons.IH[OF this, of "Suc i"] show ?thesis using Suc by simp
  qed
qed

lemma markLoop_claimed:
  "\<forall>v \<in> set (markLoop c tx nowAt i vs). sv_channelId v = c \<longrightarrow> sv_claimed v"
  by (induction vs arbitrary: i) simp_all

lemma markLoop_unclaimed:
  "filter (\<lambda>v. \<not> sv_claimed v) (markLoop c tx nowAt i vs) =
     filter (\<lambda>v. sv_channelId v \<noteq> c) (filter (\<lambda>v. \<not> sv_claimed v) vs)"
  by (induction vs arbitrary: i) simp_all

lemma highest_unclaimed:
  "foldl highestStep acc (filter (\<lambda>v. \<not> sv_claimed v) vs) = foldl highestStep acc vs"
  by (induction vs arbitrary: acc) (simp_all add: highestStep_def)

lemma dropKey_update_same: "dropKey c (AList.update c v al) = dropKey c al"
  by (induction al) (auto simp add: dropKey_def)

lemma dropKey_update_other:
  "k \<noteq> c \<Longrightarrow> dropKey c (AList.update k v al) = AList.update k v (dropKey c al)"
  by (induction al) (auto simp add: dropKey_def)

lemma map_of_dropKey: "k \<noteq> c \<Longrightarrow> map_of (dropKey c al) k = map_of al k"
  by (induction al) (auto simp add: dropKey_def)

lemma highestStep_dropKey_same:
  "sv_channelId v = c \<Longrightarrow> dropKey c (highestStep acc v) = dropKey c acc"
  by (auto simp add: highestStep_def dropKey_update_same split: option.splits)

lemma highestStep_dropKey_other:
  "sv_channelId v \<noteq> c \<Longrightarrow> highestStep (dropKey c acc) v = dropKey c (highestStep acc v)"
  by (auto simp add: highestStep_def dropKey_update_other map_of_dropKey split: option.splits)

lemma highest_dropKey:
  "foldl highestStep (dropKey c acc) (filter (\<lambda>v. sv_channelId v \<noteq> c) vs) =
     dropKey c (foldl highestStep acc vs)"
proof (induction vs arbitrary: acc)
  case Nil
  then show ?case by simp
next
  case (Cons v vs)
  show ?case
  proof (cases "sv_channelId v = c")
    case True
    then show ?thesis
      using Cons.IH[of "highestStep acc v"] by (simp add: highestStep_dropKey_same)
  next
    case False
    then show ?thesis
      using Cons.IH[of "highestStep acc v"] by (simp add: highestStep_dropKey_other)
  qed
qed

lemma markClaimed_highest:
  "getHighestVoucherPerChannel (markClaimed st c tx nowAt) =
     dropKey c (getHighestVoucherPerChannel st)"
proof -
  let ?vs = "vouchers (data st)"
  have "getHighestVoucherPerChannel (markClaimed st c tx nowAt) =
          foldl highestStep [] (markLoop c tx nowAt 0 ?vs)"
    by (simp add: getHighestVoucherPerChannel_def markClaimed_def save_def)
  also have "\<dots> = foldl highestStep [] (filter (\<lambda>v. \<not> sv_claimed v) (markLoop c tx nowAt 0 ?vs))"
    by (simp add: highest_unclaimed)
  also have "\<dots> = foldl highestStep (dropKey c [])
                      (filter (\<lambda>v. sv_channelId v \<noteq> c) (filter (\<lambda>v. \<not> sv_claimed v) ?vs))"
    by (simp add: markLoop_unclaimed dropKey_def)
  also have "\<dots> = dropKey c (foldl highestStep [] (filter (\<lambda>v. \<not> sv_claimed v) ?vs))"
    by (rule highest_dropKey)
  also have "\<dots> = dropKey c (getHighestVoucherPerChannel st)"
    by (simp add: highest_unclaimed getHighestVoucherPerChannel_def)
  finally show ?thesis .
qed

lemma foldl_total: "foldl (\<lambda>total v. total + sv_amount v) a vs = a + sum_list (map sv_amount vs)"
  by (induction vs arbitrary: a) simp_all

lemma dropKey_keys: "c \<notin> fst ` set (dropKey c al)"
  by (auto simp add: dropKey_def)

lemma markClaimed_data:
  "vouchers (data (markClaimed st c tx nowAt)) = markLoop c tx nowAt 0 (vouchers (data st))"
  "channels (data (markClaimed st c tx nowAt)) = channels (data st)"
  by (simp_all add: markClaimed_def save_def)

text \<open>
  C10, as the code has it. \<^verbatim>\<open>markClaimed(channelId, txHash)\<close> changes exactly the stored
  vouchers of that channel that are not yet claimed, all of them and not only the
  highest: each gets \<^verbatim>\<open>claimed = true\<close>, the given \<^verbatim>\<open>txHash\<close>, and as \<^verbatim>\<open>claimedAt\<close> the clock
  reading taken when the loop reaches it (the clock is read once per voucher, so the
  readings need not agree). Every other voucher, of this or another channel, stays as
  it is. Afterwards the channel has no unclaimed voucher (none in \<^verbatim>\<open>getUnclaimedVouchers\<close>),
  \<^verbatim>\<open>getHighestVoucherPerChannel\<close> is what it was without the channel's entry, and
  \<^verbatim>\<open>getTotalUnclaimed\<close> is the sum over the other channels' entries. The channel table
  is not touched.
\<close>

theorem markClaimed_marks_whole_channel:
  "length (vouchers (data (markClaimed st c tx nowAt))) = length (vouchers (data st))
   \<and> (\<forall>i < length (vouchers (data st)).
         vouchers (data (markClaimed st c tx nowAt)) ! i =
           (if sv_channelId (vouchers (data st) ! i) = c \<and> \<not> sv_claimed (vouchers (data st) ! i)
            then (vouchers (data st) ! i)\<lparr>sv_claimed := True, sv_claimedAt := Some (nowAt i),
                                            sv_claimTxHash := Some tx\<rparr>
            else vouchers (data st) ! i))
   \<and> (\<forall>v \<in> set (vouchers (data (markClaimed st c tx nowAt))). sv_channelId v = c \<longrightarrow> sv_claimed v)
   \<and> filter (\<lambda>v. sv_channelId v = c) (getUnclaimedVouchers (markClaimed st c tx nowAt)) = []
   \<and> getHighestVoucherPerChannel (markClaimed st c tx nowAt) = dropKey c (getHighestVoucherPerChannel st)
   \<and> c \<notin> fst ` set (getHighestVoucherPerChannel (markClaimed st c tx nowAt))
   \<and> getTotalUnclaimed (markClaimed st c tx nowAt) =
       sum_list (map (sv_amount \<circ> snd) (dropKey c (getHighestVoucherPerChannel st)))
   \<and> channels (data (markClaimed st c tx nowAt)) = channels (data st)"
proof (intro conjI allI impI ballI)
  show "length (vouchers (data (markClaimed st c tx nowAt))) = length (vouchers (data st))"
    by (simp add: markClaimed_data length_markLoop)
next
  fix i assume "i < length (vouchers (data st))"
  then show "vouchers (data (markClaimed st c tx nowAt)) ! i =
           (if sv_channelId (vouchers (data st) ! i) = c \<and> \<not> sv_claimed (vouchers (data st) ! i)
            then (vouchers (data st) ! i)\<lparr>sv_claimed := True, sv_claimedAt := Some (nowAt i),
                                            sv_claimTxHash := Some tx\<rparr>
            else vouchers (data st) ! i)"
    using nth_markLoop[of i "vouchers (data st)" c tx nowAt 0] by (simp add: markClaimed_data)
next
  fix v assume "v \<in> set (vouchers (data (markClaimed st c tx nowAt)))" and "sv_channelId v = c"
  then show "sv_claimed v" using markLoop_claimed[of c tx nowAt 0 "vouchers (data st)"]
    by (simp add: markClaimed_data)
next
  show "filter (\<lambda>v. sv_channelId v = c) (getUnclaimedVouchers (markClaimed st c tx nowAt)) = []"
    using markLoop_claimed[of c tx nowAt 0 "vouchers (data st)"]
    by (auto simp add: getUnclaimedVouchers_def markClaimed_data filter_empty_conv)
next
  show "getHighestVoucherPerChannel (markClaimed st c tx nowAt) = dropKey c (getHighestVoucherPerChannel st)"
    by (rule markClaimed_highest)
next
  show "c \<notin> fst ` set (getHighestVoucherPerChannel (markClaimed st c tx nowAt))"
    by (simp only: markClaimed_highest dropKey_keys not_False_eq_True)
next
  show "getTotalUnclaimed (markClaimed st c tx nowAt) =
       sum_list (map (sv_amount \<circ> snd) (dropKey c (getHighestVoucherPerChannel st)))"
    by (simp add: getTotalUnclaimed_def markClaimed_highest foldl_total comp_def)
next
  show "channels (data (markClaimed st c tx nowAt)) = channels (data st)"
    by (simp add: markClaimed_data)
qed

theorem markClaimed_marks_whole_channel_witness:
  "length (vouchers (data ex_two)) = 2
   \<and> sv_claimed (vouchers (data (markClaimed ex_two ''0xc1'' ''0xfe'' ex_clock)) ! 0)
   \<and> sv_claimTxHash (vouchers (data (markClaimed ex_two ''0xc1'' ''0xfe'' ex_clock)) ! 0) = Some ''0xfe''
   \<and> sv_claimed (vouchers (data (markClaimed ex_two ''0xc1'' ''0xfe'' ex_clock)) ! 1)
   \<and> getHighestVoucherPerChannel (markClaimed ex_two ''0xc1'' ''0xfe'' ex_clock) = []
   \<and> getTotalUnclaimed (markClaimed ex_two ''0xc1'' ''0xfe'' ex_clock) = 0"
proof -
  let ?st = "markClaimed ex_two ''0xc1'' ''0xfe'' ex_clock"
  note inst = markClaimed_marks_whole_channel[of ex_two "''0xc1''" "''0xfe''" ex_clock]
  have len: "length (vouchers (data ex_two)) = 2"
    by (simp add: ex_two_def ex_two_requests_def eval_defs)
  have v0: "sv_channelId (vouchers (data ex_two) ! 0) = ''0xc1''"
    "\<not> sv_claimed (vouchers (data ex_two) ! 0)"
    by (simp_all add: ex_two_def ex_two_requests_def eval_defs)
  have hi: "dropKey ''0xc1'' (getHighestVoucherPerChannel ex_two) = []"
    by (simp add: dropKey_def getHighestVoucherPerChannel_def highestStep_def
          ex_two_def ex_two_requests_def eval_defs)
  have "vouchers (data ?st) ! 0 =
          (vouchers (data ex_two) ! 0)\<lparr>sv_claimed := True, sv_claimedAt := Some (ex_clock 0),
                                       sv_claimTxHash := Some ''0xfe''\<rparr>"
    using inst len v0 by simp
  then have a: "sv_claimed (vouchers (data ?st) ! 0)"
    "sv_claimTxHash (vouchers (data ?st) ! 0) = Some ''0xfe''"
    by simp_all
  have leq: "length (vouchers (data ?st)) = 2"
    using inst len by simp
  have m: "vouchers (data ?st) ! 1 \<in> set (vouchers (data ?st))"
    by (rule nth_mem) (simp add: leq)
  have v1: "sv_channelId (vouchers (data ex_two) ! 1) = ''0xc1''"
    "\<not> sv_claimed (vouchers (data ex_two) ! 1)"
    by (simp_all add: ex_two_def ex_two_requests_def eval_defs)
  have "vouchers (data ?st) ! 1 =
          (vouchers (data ex_two) ! 1)\<lparr>sv_claimed := True, sv_claimedAt := Some (ex_clock 1),
                                       sv_claimTxHash := Some ''0xfe''\<rparr>"
    using inst len v1 by simp
  then have "sv_channelId (vouchers (data ?st) ! 1) = ''0xc1''"
    using v1 by simp
  then have b: "sv_claimed (vouchers (data ?st) ! 1)"
    using inst m by blast
  have c: "getHighestVoucherPerChannel ?st = []" "getTotalUnclaimed ?st = 0"
    using inst hi by simp_all
  show ?thesis using len a b c by simp
qed

text \<open>
  C10 as the specification words it fails in its parenthesis: with two unclaimed
  vouchers on the channel and a clock that ticks between the two loop iterations, the
  two vouchers are marked with different \<^verbatim>\<open>claimedAt\<close> values.
\<close>

theorem markClaimed_claimedAt_counterexample:
  "map sv_claimedAt (vouchers (data (markClaimed ex_two ''0xc1'' ''0xfe'' ex_clock)))
     = [Some 50, Some 51]"
  by (simp add: markClaimed_def ex_clock_def ex_two_def ex_two_requests_def eval_defs)

subsection \<open>Claim passes\<close>

lemma markLoop_keeps:
  "list_all (\<lambda>v. sv_channelId v = c \<longrightarrow> sv_claimed v) vs \<Longrightarrow>
   list_all (\<lambda>v. sv_channelId v = c \<longrightarrow> sv_claimed v) (markLoop c' tx nowAt i vs)"
  by (induction vs arbitrary: i) simp_all

lemma markClaimed_allClaimed: "allClaimed (markClaimed st c tx nowAt) c"
  using markLoop_claimed[of c tx nowAt 0 "vouchers (data st)"]
  by (simp add: allClaimed_def markClaimed_data list_all_iff)

lemma markClaimed_keeps: "allClaimed st c \<Longrightarrow> allClaimed (markClaimed st c' tx nowAt) c"
  by (simp add: allClaimed_def markClaimed_data markLoop_keeps)

lemma handleClaimError_keeps:
  "allClaimed st c \<Longrightarrow> allClaimed (handleClaimError st context c' e nowAt) c"
  by (simp add: handleClaimError_def markClaimed_keeps)

lemma claimChannel_keeps:
  "allClaimed (cr_storage run) c \<Longrightarrow> allClaimed (cr_storage (claimChannel context w run c' v)) c"
  by (simp add: claimChannel_def markClaimed_keeps handleClaimError_keeps split: sum.splits)

lemma claimPaymentsStep_keeps:
  "allClaimed (cr_storage run) c \<Longrightarrow> allClaimed (cr_storage (claimPaymentsStep svc w f run e)) c"
  by (cases e) (simp add: claimPaymentsStep_def claimChannel_keeps)

lemma claimExpiringStep_keeps:
  "allClaimed (cr_storage run) c \<Longrightarrow> allClaimed (cr_storage (claimExpiringStep w buf now run e)) c"
  by (cases e) (simp add: claimExpiringStep_def claimChannel_keeps Let_def split: option.splits)

lemma claimPayments_fold_keeps:
  "allClaimed (cr_storage run) c \<Longrightarrow>
   allClaimed (cr_storage (foldl (claimPaymentsStep svc w f) run es)) c"
  by (induction es arbitrary: run) (simp_all add: claimPaymentsStep_keeps)

lemma claimExpiring_fold_keeps:
  "allClaimed (cr_storage run) c \<Longrightarrow>
   allClaimed (cr_storage (foldl (claimExpiringStep w buf now) run es)) c"
  by (induction es arbitrary: run) (simp_all add: claimExpiringStep_keeps)

lemma set_update_sub: "set (AList.update k v al) \<subseteq> insert (k, v) (set al)"
  by (induction al) auto

lemma highestStep_entryOk:
  assumes "\<forall>e \<in> set acc. entryOk vs e" and "v \<in> set vs"
  shows "\<forall>e \<in> set (highestStep acc v). entryOk vs e"
proof -
  have "set (highestStep acc v) \<subseteq> set acc \<or>
        (\<not> sv_claimed v \<and> set (highestStep acc v) \<subseteq> insert (sv_channelId v, v) (set acc))"
    using set_update_sub[of "sv_channelId v" v acc]
    by (simp add: highestStep_def split: option.splits)
  moreover have "\<not> sv_claimed v \<Longrightarrow> entryOk vs (sv_channelId v, v)"
    using assms(2) by (simp add: entryOk_def)
  ultimately show ?thesis using assms(1) by blast
qed

lemma highest_fold_entryOk:
  "\<forall>e \<in> set acc. entryOk vs e \<Longrightarrow> set ws \<subseteq> set vs \<Longrightarrow>
   \<forall>e \<in> set (foldl highestStep acc ws). entryOk vs e"
proof (induction ws arbitrary: acc)
  case Nil
  then show ?case by simp
next
  case (Cons w ws)
  have "\<forall>e \<in> set (highestStep acc w). entryOk vs e"
    using Cons.prems by (intro highestStep_entryOk) auto
  then show ?case using Cons.IH[of "highestStep acc w"] Cons.prems(2) by simp
qed

lemma highest_entryOk:
  "e \<in> set (getHighestVoucherPerChannel st) \<Longrightarrow> entryOk (vouchers (data st)) e"
  using highest_fold_entryOk[of "[]" "vouchers (data st)" "vouchers (data st)"]
  by (simp add: getHighestVoucherPerChannel_def)

text \<open>
  The keys of \<^verbatim>\<open>getHighestVoucherPerChannel\<close> are distinct, as those of a \<^verbatim>\<open>Map\<close> are: a
  pass visits a channel once, which is why one answer of the chain per channel
  describes a pass.
\<close>

lemma highest_distinct: "distinct (map fst (getHighestVoucherPerChannel st))"
proof -
  have "distinct (map fst acc) \<Longrightarrow> distinct (map fst (foldl highestStep acc vs))" for acc vs
    by (induction vs arbitrary: acc) (simp_all add: highestStep_def distinct_update split: option.splits)
  then show ?thesis by (simp add: getHighestVoucherPerChannel_def)
qed

text \<open>
  Every channel with an unclaimed stored voucher has an entry in
  \<^verbatim>\<open>getHighestVoucherPerChannel\<close>, and the entry's amount is at least that of each
  unclaimed voucher of the channel.
\<close>

lemma highestStep_grows:
  "map_of acc k = Some v \<Longrightarrow>
   \<exists>v'. map_of (highestStep acc x) k = Some v' \<and> sv_amount v \<le> sv_amount v'"
  by (auto simp add: highestStep_def update_conv' split: option.splits)

lemma highestStep_enters:
  "\<not> sv_claimed x \<Longrightarrow>
   \<exists>v'. map_of (highestStep acc x) (sv_channelId x) = Some v' \<and> sv_amount x \<le> sv_amount v'"
  by (auto simp add: highestStep_def update_conv' split: option.splits)

lemma highest_fold_grows:
  "map_of acc k = Some v \<Longrightarrow>
   \<exists>v'. map_of (foldl highestStep acc vs) k = Some v' \<and> sv_amount v \<le> sv_amount v'"
proof (induction vs arbitrary: acc v)
  case Nil
  then show ?case by simp
next
  case (Cons x vs)
  from highestStep_grows[OF Cons.prems, of x] obtain v1
    where 1: "map_of (highestStep acc x) k = Some v1" and 2: "sv_amount v \<le> sv_amount v1"
    by blast
  from Cons.IH[OF 1] obtain v'
    where "map_of (foldl highestStep (highestStep acc x) vs) k = Some v'"
      and "sv_amount v1 \<le> sv_amount v'"
    by blast
  then show ?case using 2 by auto
qed

lemma highest_fold_enters:
  "u \<in> set vs \<Longrightarrow> \<not> sv_claimed u \<Longrightarrow>
   \<exists>v. map_of (foldl highestStep acc vs) (sv_channelId u) = Some v \<and> sv_amount u \<le> sv_amount v"
proof (induction vs arbitrary: acc)
  case Nil
  then show ?case by simp
next
  case (Cons x vs)
  show ?case
  proof (cases "u = x")
    case True
    from highestStep_enters[of x acc] Cons.prems(2) True obtain v1
      where 1: "map_of (highestStep acc x) (sv_channelId u) = Some v1"
        and 2: "sv_amount u \<le> sv_amount v1"
      by blast
    from highest_fold_grows[OF 1, of vs] obtain v
      where "map_of (foldl highestStep (highestStep acc x) vs) (sv_channelId u) = Some v"
        and "sv_amount v1 \<le> sv_amount v"
      by blast
    then show ?thesis using 2 by auto
  next
    case False
    then have "u \<in> set vs" using Cons.prems(1) by simp
    from Cons.IH[OF this Cons.prems(2), of "highestStep acc x"] show ?thesis by simp
  qed
qed

lemma unclaimed_has_entry:
  assumes "u \<in> set (vouchers (data st))" and "\<not> sv_claimed u"
  shows "\<exists>v. map_of (getHighestVoucherPerChannel st) (sv_channelId u) = Some v
           \<and> (sv_channelId u, v) \<in> set (getHighestVoucherPerChannel st)
           \<and> sv_amount u \<le> sv_amount v"
proof -
  from highest_fold_enters[OF assms, of "[]"] obtain v
    where m: "map_of (getHighestVoucherPerChannel st) (sv_channelId u) = Some v"
      and le: "sv_amount u \<le> sv_amount v"
    by (auto simp add: getHighestVoucherPerChannel_def)
  have "(sv_channelId u, v) \<in> set (getHighestVoucherPerChannel st)"
    by (rule map_of_SomeD[OF m])
  then show ?thesis using m le by blast
qed

lemma allClaimed_not_highest:
  assumes "allClaimed st c"
  shows "c \<notin> fst ` set (getHighestVoucherPerChannel st)"
proof
  assume "c \<in> fst ` set (getHighestVoucherPerChannel st)"
  then obtain e where e: "e \<in> set (getHighestVoucherPerChannel st)" and k: "fst e = c"
    by auto
  from highest_entryOk[OF e] have "sv_channelId (snd e) = c" "\<not> sv_claimed (snd e)"
    "snd e \<in> set (vouchers (data st))"
    using k by (simp_all add: entryOk_def)
  then show False using assms by (auto simp add: allClaimed_def list_all_iff)
qed

text \<open>A pass submits claim transactions only for vouchers among its entries.\<close>

lemma claimChannel_submitted:
  "set (cr_submitted (claimChannel context w run k v)) \<subseteq> insert (claimArgs v) (set (cr_submitted run))"
  by (auto simp add: claimChannel_def claimArgs_def split: sum.splits)

lemma claimChannel_submitted_mono:
  "set (cr_submitted run) \<subseteq> set (cr_submitted (claimChannel context w run k v))"
  by (auto simp add: claimChannel_def split: sum.splits)

lemma claimPaymentsStep_submitted:
  "set (cr_submitted (claimPaymentsStep svc w f run e)) \<subseteq> insert (claimArgs (snd e)) (set (cr_submitted run))"
  using claimChannel_submitted[of "''claim''" w run "fst e" "snd e"]
  by (cases e) (auto simp add: claimPaymentsStep_def)

lemma claimExpiringStep_submitted:
  "set (cr_submitted (claimExpiringStep w buf now run e)) \<subseteq> insert (claimArgs (snd e)) (set (cr_submitted run))"
  using claimChannel_submitted[of "''auto-claim''" w run "fst e" "snd e"]
  by (cases e) (auto simp add: claimExpiringStep_def Let_def split: option.splits)

lemma claimPayments_fold_submitted:
  "set (cr_submitted (foldl (claimPaymentsStep svc w f) run es))
     \<subseteq> set (cr_submitted run) \<union> (claimArgs \<circ> snd) ` set es"
proof (induction es arbitrary: run)
  case Nil
  then show ?case by simp
next
  case (Cons e es)
  show ?case
    using Cons.IH[of "claimPaymentsStep svc w f run e"] claimPaymentsStep_submitted[of svc w f run e]
    by auto
qed


lemma highest_claimArgs:
  assumes "c \<notin> fst ` set (getHighestVoucherPerChannel st)"
  shows "c \<notin> fst ` (claimArgs \<circ> snd) ` set (getHighestVoucherPerChannel st)"
proof
  assume "c \<in> fst ` (claimArgs \<circ> snd) ` set (getHighestVoucherPerChannel st)"
  then obtain e where e: "e \<in> set (getHighestVoucherPerChannel st)"
    and k: "sv_channelId (snd e) = c"
    by (auto simp add: claimArgs_def)
  from highest_entryOk[OF e] have "fst e = c" using k by (simp add: entryOk_def)
  then show False using assms e by auto
qed

lemma claimPayments_silent:
  assumes "allClaimed st c"
  shows "c \<notin> fst ` set (cr_submitted (claimPayments svc w st f))"
proof -
  have "set (cr_submitted (claimPayments svc w st f))
          \<subseteq> (claimArgs \<circ> snd) ` set (getHighestVoucherPerChannel st)"
    using claimPayments_fold_submitted[of svc w f
            "\<lparr>cr_storage = st, cr_txHashes = [], cr_submitted = []\<rparr>"
            "getHighestVoucherPerChannel st"]
    by (simp add: claimPayments_def)
  moreover have "c \<notin> fst ` (claimArgs \<circ> snd) ` set (getHighestVoucherPerChannel st)"
    by (rule highest_claimArgs[OF allClaimed_not_highest[OF assms]])
  ultimately show ?thesis by blast
qed


lemma claimChannel_channels:
  "channels (data (cr_storage (claimChannel context w run k v))) = channels (data (cr_storage run))"
  by (simp add: claimChannel_def handleClaimError_def markClaimed_data split: sum.splits)

lemma claimExpiringStep_channels:
  "channels (data (cr_storage (claimExpiringStep w buf now run e))) = channels (data (cr_storage run))"
  by (cases e) (simp add: claimExpiringStep_def claimChannel_channels Let_def split: option.splits)

lemma claimPayments_fold_submitted_mono:
  "set (cr_submitted run) \<subseteq> set (cr_submitted (foldl (claimPaymentsStep svc w f) run es))"
proof (induction es arbitrary: run)
  case Nil
  then show ?case by simp
next
  case (Cons e es)
  have "set (cr_submitted run) \<subseteq> set (cr_submitted (claimPaymentsStep svc w f run e))"
    using claimChannel_submitted_mono[of run "''claim''" w "fst e" "snd e"]
    by (cases e) (auto simp add: claimPaymentsStep_def)
  then show ?case using Cons.IH[of "claimPaymentsStep svc w f run e"] by auto
qed

lemma claimExpiring_fold_submitted_mono:
  "set (cr_submitted run) \<subseteq> set (cr_submitted (foldl (claimExpiringStep w buf now) run es))"
proof (induction es arbitrary: run)
  case Nil
  then show ?case by simp
next
  case (Cons e es)
  have "set (cr_submitted run) \<subseteq> set (cr_submitted (claimExpiringStep w buf now run e))"
    using claimChannel_submitted_mono[of run "''auto-claim''" w "fst e" "snd e"]
    by (cases e) (auto simp add: claimExpiringStep_def Let_def split: option.splits)
  then show ?case using Cons.IH[of "claimExpiringStep w buf now run e"] by auto
qed

lemma claimPayments_fold_txHashes_mono:
  "set (cr_txHashes run) \<subseteq> set (cr_txHashes (foldl (claimPaymentsStep svc w f) run es))"
proof (induction es arbitrary: run)
  case Nil
  then show ?case by simp
next
  case (Cons e es)
  have "set (cr_txHashes run) \<subseteq> set (cr_txHashes (claimPaymentsStep svc w f run e))"
    by (cases e) (auto simp add: claimPaymentsStep_def claimChannel_def split: sum.splits)
  then show ?case using Cons.IH[of "claimPaymentsStep svc w f run e"] by auto
qed

lemma claimChannel_submits:
  "getBalance w (sv_channelId v) \<noteq> Inr 0 \<Longrightarrow>
   claimArgs v \<in> set (cr_submitted (claimChannel context w run k v))"
  by (simp add: claimChannel_def claimArgs_def split: sum.splits)

lemma claimChannel_marks:
  "getBalance w (sv_channelId v) = Inr 0 \<or>
   (\<exists>h. writeClaim w (sv_channelId v) (sv_amount v) (sv_nonce v) (sv_signature v) = Inr h) \<Longrightarrow>
   allClaimed (cr_storage (claimChannel context w run k v)) k"
  by (auto simp add: claimChannel_def markClaimed_allClaimed split: sum.splits)

lemma claimChannel_txHash:
  "getBalance w (sv_channelId v) \<noteq> Inr 0 \<Longrightarrow>
   writeClaim w (sv_channelId v) (sv_amount v) (sv_nonce v) (sv_signature v) = Inr h \<Longrightarrow>
   h \<in> set (cr_txHashes (claimChannel context w run k v))"
  by (simp add: claimChannel_def)

lemma claimPayments_fold_claims:
  assumes "(c, v) \<in> set es" and "f \<or> claimThreshold svc \<le> sv_amount v"
      and "getBalance w (sv_channelId v) \<noteq> Inr 0"
      and "writeClaim w (sv_channelId v) (sv_amount v) (sv_nonce v) (sv_signature v) = Inr h"
  shows "h \<in> set (cr_txHashes (foldl (claimPaymentsStep svc w f) run es))
       \<and> claimArgs v \<in> set (cr_submitted (foldl (claimPaymentsStep svc w f) run es))
       \<and> allClaimed (cr_storage (foldl (claimPaymentsStep svc w f) run es)) c"
  using assms(1)
proof (induction es arbitrary: run)
  case Nil
  then show ?case by simp
next
  case (Cons e es)
  let ?run = "claimPaymentsStep svc w f run e"
  show ?case
  proof (cases "e = (c, v)")
    case True
    have s: "?run = claimChannel ''claim'' w run c v"
      using True assms(2) by (auto simp add: claimPaymentsStep_def)
    have "h \<in> set (cr_txHashes ?run)"
      unfolding s by (rule claimChannel_txHash[OF assms(3) assms(4)])
    moreover have "claimArgs v \<in> set (cr_submitted ?run)"
      unfolding s by (rule claimChannel_submits[OF assms(3)])
    moreover have "allClaimed (cr_storage ?run) c"
      unfolding s using assms(4) by (intro claimChannel_marks) blast
    ultimately show ?thesis
      using claimPayments_fold_txHashes_mono[of ?run svc w f es]
        claimPayments_fold_submitted_mono[of ?run svc w f es]
        claimPayments_fold_keeps[of ?run c svc w f es]
      by auto
  next
    case False
    then have "(c, v) \<in> set es" using Cons.prems by simp
    from Cons.IH[OF this, of ?run] show ?thesis by simp
  qed
qed


text \<open>\<^verbatim>\<open>claimExpiring\<close>: what happens to an entry that is due.\<close>

lemma claimExpiring_fold_due:
  assumes "(c, v) \<in> set es" and "map_of chs c = Some ch"
      and "cs_expiry ch \<noteq> 0" and "cs_expiry ch - now \<le> buf" and "0 < sv_amount v"
  shows "channels (data (cr_storage run)) = chs \<Longrightarrow>
         (getBalance w (sv_channelId v) \<noteq> Inr 0 \<longrightarrow>
            claimArgs v \<in> set (cr_submitted (foldl (claimExpiringStep w buf now) run es)))
       \<and> (getBalance w (sv_channelId v) = Inr 0 \<longrightarrow>
            allClaimed (cr_storage (foldl (claimExpiringStep w buf now) run es)) c)"
  using assms(1)
proof (induction es arbitrary: run)
  case Nil
  then show ?case by simp
next
  case (Cons e es)
  let ?run = "claimExpiringStep w buf now run e"
  have chs: "channels (data (cr_storage ?run)) = chs"
    using Cons.prems(1) by (simp add: claimExpiringStep_channels)
  show ?case
  proof (cases "e = (c, v)")
    case True
    have s: "?run = claimChannel ''auto-claim'' w run c v"
      using True assms(2-5) Cons.prems(1)
      by (simp add: claimExpiringStep_def getChannel_def Let_def)
    have a: "getBalance w (sv_channelId v) \<noteq> Inr 0 \<Longrightarrow> claimArgs v \<in> set (cr_submitted ?run)"
      unfolding s by (rule claimChannel_submits)
    have b: "getBalance w (sv_channelId v) = Inr 0 \<Longrightarrow> allClaimed (cr_storage ?run) c"
      unfolding s by (intro claimChannel_marks) blast
    show ?thesis
      using a b claimExpiring_fold_submitted_mono[of ?run w buf now es]
        claimExpiring_fold_keeps[of ?run c w buf now es]
      by auto
  next
    case False
    then have "(c, v) \<in> set es" using Cons.prems(2) by simp
    from Cons.IH[OF chs this] show ?thesis by simp
  qed
qed

text \<open>Entries that a pass leaves alone.\<close>

lemma markLoop_other_channel:
  "k \<noteq> c \<Longrightarrow>
   filter (\<lambda>u. sv_channelId u = c) (markLoop k tx nowAt i vs) = filter (\<lambda>u. sv_channelId u = c) vs"
  by (induction vs arbitrary: i) simp_all

lemma claimChannel_other_channel:
  "k \<noteq> c \<Longrightarrow>
   filter (\<lambda>u. sv_channelId u = c) (vouchers (data (cr_storage (claimChannel context w run k v)))) =
   filter (\<lambda>u. sv_channelId u = c) (vouchers (data (cr_storage run)))"
  by (simp add: claimChannel_def handleClaimError_def markClaimed_data markLoop_other_channel
        split: sum.splits)

lemma claimExpiring_fold_not_due:
  assumes "\<forall>e \<in> set es. sv_channelId (snd e) = fst e"
      and "map_of chs c = Some ch" and "cs_expiry ch - now > buf"
  shows "channels (data (cr_storage run)) = chs \<Longrightarrow>
         set (cr_submitted (foldl (claimExpiringStep w buf now) run es))
           \<subseteq> set (cr_submitted run) \<union> {a. fst a \<noteq> c}
       \<and> filter (\<lambda>u. sv_channelId u = c)
            (vouchers (data (cr_storage (foldl (claimExpiringStep w buf now) run es)))) =
          filter (\<lambda>u. sv_channelId u = c) (vouchers (data (cr_storage run)))"
  using assms(1)
proof (induction es arbitrary: run)
  case Nil
  then show ?case by simp
next
  case (Cons e es)
  let ?run = "claimExpiringStep w buf now run e"
  have chs: "channels (data (cr_storage ?run)) = chs"
    using Cons.prems(1) by (simp add: claimExpiringStep_channels)
  have rest: "\<forall>e \<in> set es. sv_channelId (snd e) = fst e" using Cons.prems(2) by simp
  have key: "sv_channelId (snd e) = fst e" using Cons.prems(2) by simp
  have step: "set (cr_submitted ?run) \<subseteq> set (cr_submitted run) \<union> {a. fst a \<noteq> c}
       \<and> filter (\<lambda>u. sv_channelId u = c) (vouchers (data (cr_storage ?run))) =
          filter (\<lambda>u. sv_channelId u = c) (vouchers (data (cr_storage run)))"
  proof (cases "fst e = c")
    case True
    then have "?run = run"
      using assms(2,3) Cons.prems(1)
      by (cases e) (simp add: claimExpiringStep_def getChannel_def Let_def)
    then show ?thesis by simp
  next
    case False
    have "fst (claimArgs (snd e)) \<noteq> c" using False key by (simp add: claimArgs_def)
    then have 1: "set (cr_submitted ?run) \<subseteq> set (cr_submitted run) \<union> {a. fst a \<noteq> c}"
      using claimExpiringStep_submitted[of w buf now run e] by auto
    have 2: "filter (\<lambda>u. sv_channelId u = c) (vouchers (data (cr_storage ?run))) =
          filter (\<lambda>u. sv_channelId u = c) (vouchers (data (cr_storage run)))"
      using claimChannel_other_channel[OF False, of "''auto-claim''" w run "snd e"]
      by (cases e) (simp add: claimExpiringStep_def Let_def split: option.splits)
    show ?thesis using 1 2 by simp
  qed
  from Cons.IH[OF chs rest] step show ?case by auto
qed

lemma claimExpiring_fold_zero_balance:
  assumes "\<forall>e \<in> set es. sv_channelId (snd e) = fst e" and "getBalance w c = Inr 0"
  shows "set (cr_submitted (foldl (claimExpiringStep w buf now) run es))
           \<subseteq> set (cr_submitted run) \<union> {a. fst a \<noteq> c}"
  using assms(1)
proof (induction es arbitrary: run)
  case Nil
  then show ?case by simp
next
  case (Cons e es)
  let ?run = "claimExpiringStep w buf now run e"
  have rest: "\<forall>e \<in> set es. sv_channelId (snd e) = fst e" using Cons.prems by simp
  have key: "sv_channelId (snd e) = fst e" using Cons.prems by simp
  have step: "set (cr_submitted ?run) \<subseteq> set (cr_submitted run) \<union> {a. fst a \<noteq> c}"
  proof (cases "fst e = c")
    case True
    then have "cr_submitted ?run = cr_submitted run"
      using key assms(2)
      by (cases e) (simp add: claimExpiringStep_def claimChannel_def Let_def split: option.splits)
    then show ?thesis by simp
  next
    case False
    have "fst (claimArgs (snd e)) \<noteq> c" using False key by (simp add: claimArgs_def)
    then show ?thesis
      using claimExpiringStep_submitted[of w buf now run e] by auto
  qed
  from Cons.IH[OF rest, of ?run] step show ?case by auto
qed

lemma highest_keys:
  "\<forall>e \<in> set (getHighestVoucherPerChannel st). sv_channelId (snd e) = fst e"
  using highest_entryOk[of _ st] by (auto simp add: entryOk_def)

subsection \<open>Claimed vouchers stay claimed\<close>


























text \<open>
  C6. Let the first \<^verbatim>\<open>claimPayments\<close> call find \<open>v\<close> as the highest unclaimed voucher of
  channel \<open>c\<close>, not skip it, read a non-zero balance and get a transaction hash \<open>h\<close>
  back from the claim. Then \<open>h\<close> is among the hashes the call returns, afterwards the
  channel has no entry in \<^verbatim>\<open>getHighestVoucherPerChannel\<close>, and a second \<^verbatim>\<open>claimPayments\<close>
  call on the resulting store submits no claim transaction for \<open>c\<close>, whatever the chain
  answers and whether or not it is forced.
\<close>

theorem claimPayments_idempotent:
  assumes e: "(c, v) \<in> set (getHighestVoucherPerChannel st)"
      and thr: "forceAll \<or> claimThreshold svc \<le> sv_amount v"
      and bal: "getBalance w c \<noteq> Inr 0"
      and ok: "writeClaim w c (sv_amount v) (sv_nonce v) (sv_signature v) = Inr h"
      and st': "st' = cr_storage (claimPayments svc w st forceAll)"
  shows "h \<in> set (cr_txHashes (claimPayments svc w st forceAll))
       \<and> c \<notin> fst ` set (getHighestVoucherPerChannel st')
       \<and> (\<forall>svc2 w2 forceAll2.
             c \<notin> fst ` set (cr_submitted (claimPayments svc2 w2 st' forceAll2)))"
proof -
  have k: "sv_channelId v = c" using highest_keys[of st] e by auto
  have "h \<in> set (cr_txHashes (claimPayments svc w st forceAll))
       \<and> claimArgs v \<in> set (cr_submitted (claimPayments svc w st forceAll))
       \<and> allClaimed (cr_storage (claimPayments svc w st forceAll)) c"
    unfolding claimPayments_def
    using e thr bal ok unfolding k[symmetric]
    by (rule claimPayments_fold_claims)
  then have h: "h \<in> set (cr_txHashes (claimPayments svc w st forceAll))"
    and a: "allClaimed st' c"
    by (simp_all add: st')
  show ?thesis
    using h allClaimed_not_highest[OF a] claimPayments_silent[OF a] by blast
qed

text \<open>
  C7. Let channel \<open>c\<close> have an unclaimed stored voucher \<open>u\<close> and a cached state \<open>ch\<close>, and
  let \<^verbatim>\<open>claimExpiring\<close> run with buffer \<open>bufferSeconds\<close>, started at clock reading \<open>nowMs\<close>.
  The pass has exactly one entry \<open>v\<close> for \<open>c\<close>: an unclaimed stored voucher of \<open>c\<close> whose
  amount is the highest among the channel's unclaimed vouchers. If the cached expiry
  is set, \<open>expiry - now \<le> bufferSeconds\<close> and the channel has a positive unclaimed
  amount, the claim procedure runs for the channel, whatever the configured claim
  threshold: when the balance pre-check does not read zero, the claim transaction is
  submitted with the channel id and the amount, nonce and signature of \<open>v\<close>; when it
  reads zero, the channel's vouchers are marked claimed and no transaction is sent.
  If \<open>expiry - now > bufferSeconds\<close>, the pass submits nothing for the channel and
  leaves its vouchers as they are.
\<close>

theorem claimExpiring_claims_due_channels:
  assumes u: "u \<in> set (vouchers (data st))" "sv_channelId u = c" "\<not> sv_claimed u"
      and ch: "getChannel st c = Some ch"
      and r: "r = claimExpiring svc w st bufferSeconds nowMs"
  shows "\<exists>v. (c, v) \<in> set (getHighestVoucherPerChannel st)
           \<and> (\<forall>v'. (c, v') \<in> set (getHighestVoucherPerChannel st) \<longrightarrow> v' = v)
           \<and> v \<in> set (vouchers (data st)) \<and> sv_channelId v = c \<and> \<not> sv_claimed v
           \<and> (\<forall>u' \<in> set (vouchers (data st)).
                 sv_channelId u' = c \<longrightarrow> \<not> sv_claimed u' \<longrightarrow> sv_amount u' \<le> sv_amount v)
           \<and> (cs_expiry ch \<noteq> 0 \<and> cs_expiry ch - nowMs div 1000 \<le> bufferSeconds
                \<and> 0 < sv_amount u \<longrightarrow>
                  (getBalance w c \<noteq> Inr 0 \<longrightarrow>
                     (c, sv_amount v, sv_nonce v, sv_signature v) \<in> set (cr_submitted r))
                \<and> (getBalance w c = Inr 0 \<longrightarrow>
                     (\<forall>x \<in> set (vouchers (data (cr_storage r))). sv_channelId x = c \<longrightarrow> sv_claimed x)
                     \<and> c \<notin> fst ` set (cr_submitted r)))
           \<and> (cs_expiry ch - nowMs div 1000 > bufferSeconds \<longrightarrow>
                  c \<notin> fst ` set (cr_submitted r)
                \<and> filter (\<lambda>x. sv_channelId x = c) (vouchers (data (cr_storage r))) =
                    filter (\<lambda>x. sv_channelId x = c) (vouchers (data st)))"
proof -
  let ?run = "\<lparr>cr_storage = st, cr_txHashes = [], cr_submitted = []\<rparr>"
  let ?es = "getHighestVoucherPerChannel st"
  from unclaimed_has_entry[OF u(1) u(3)] obtain v
    where mv: "map_of ?es c = Some v" and e: "(c, v) \<in> set ?es" and uv: "sv_amount u \<le> sv_amount v"
    using u(2) by auto
  have only: "\<forall>v'. (c, v') \<in> set ?es \<longrightarrow> v' = v"
    using mv map_of_is_SomeI[OF highest_distinct[of st]] by fastforce
  have ok: "entryOk (vouchers (data st)) (c, v)" by (rule highest_entryOk[OF e])
  then have k: "sv_channelId v = c" and nc: "\<not> sv_claimed v" and mem: "v \<in> set (vouchers (data st))"
    by (simp_all add: entryOk_def)
  have top: "\<forall>u' \<in> set (vouchers (data st)).
               sv_channelId u' = c \<longrightarrow> \<not> sv_claimed u' \<longrightarrow> sv_amount u' \<le> sv_amount v"
  proof (intro ballI impI)
    fix u' assume a: "u' \<in> set (vouchers (data st))" "sv_channelId u' = c" "\<not> sv_claimed u'"
    from unclaimed_has_entry[OF a(1) a(3)] obtain v'
      where "map_of ?es c = Some v'" and "sv_amount u' \<le> sv_amount v'"
      using a(2) by auto
    then show "sv_amount u' \<le> sv_amount v" using mv by simp
  qed
  have keys: "\<forall>e \<in> set ?es. sv_channelId (snd e) = fst e" by (rule highest_keys)
  have m: "map_of (channels (data st)) c = Some ch" using ch by (simp add: getChannel_def)
  have c0: "channels (data (cr_storage ?run)) = channels (data st)" by simp
  have args: "claimArgs v = (c, sv_amount v, sv_nonce v, sv_signature v)"
    using k by (simp add: claimArgs_def)
  have due: "cs_expiry ch \<noteq> 0 \<Longrightarrow> cs_expiry ch - nowMs div 1000 \<le> bufferSeconds \<Longrightarrow> 0 < sv_amount v \<Longrightarrow>
       (getBalance w c \<noteq> Inr 0 \<longrightarrow> (c, sv_amount v, sv_nonce v, sv_signature v) \<in> set (cr_submitted r))
       \<and> (getBalance w c = Inr 0 \<longrightarrow> allClaimed (cr_storage r) c)"
    using claimExpiring_fold_due[OF e m _ _ _ c0, of "nowMs div 1000" bufferSeconds w]
    by (simp add: r claimExpiring_def k args)
  have zero: "getBalance w c = Inr 0 \<Longrightarrow> c \<notin> fst ` set (cr_submitted r)"
    using claimExpiring_fold_zero_balance[OF keys, of w c bufferSeconds "nowMs div 1000" ?run]
    by (auto simp add: r claimExpiring_def)
  have late: "cs_expiry ch - nowMs div 1000 > bufferSeconds \<Longrightarrow>
       c \<notin> fst ` set (cr_submitted r)
       \<and> filter (\<lambda>x. sv_channelId x = c) (vouchers (data (cr_storage r))) =
           filter (\<lambda>x. sv_channelId x = c) (vouchers (data st))"
    using claimExpiring_fold_not_due[OF keys m _ c0, of bufferSeconds "nowMs div 1000" w]
    by (auto simp add: r claimExpiring_def)
  have pos: "0 < sv_amount u \<Longrightarrow> 0 < sv_amount v" using uv by simp
  have body: "(cs_expiry ch \<noteq> 0 \<and> cs_expiry ch - nowMs div 1000 \<le> bufferSeconds
                \<and> 0 < sv_amount u \<longrightarrow>
                  (getBalance w c \<noteq> Inr 0 \<longrightarrow>
                     (c, sv_amount v, sv_nonce v, sv_signature v) \<in> set (cr_submitted r))
                \<and> (getBalance w c = Inr 0 \<longrightarrow>
                     (\<forall>x \<in> set (vouchers (data (cr_storage r))). sv_channelId x = c \<longrightarrow> sv_claimed x)
                     \<and> c \<notin> fst ` set (cr_submitted r)))
           \<and> (cs_expiry ch - nowMs div 1000 > bufferSeconds \<longrightarrow>
                  c \<notin> fst ` set (cr_submitted r)
                \<and> filter (\<lambda>x. sv_channelId x = c) (vouchers (data (cr_storage r))) =
                    filter (\<lambda>x. sv_channelId x = c) (vouchers (data st)))"
    using due zero late pos by (simp add: allClaimed_def list_all_iff)
  show ?thesis
    using e only mem k nc top body by blast
qed

lemma ex_two_highest: "getHighestVoucherPerChannel ex_two = [(''0xc1'', ex_highest)]"
  by (simp add: getHighestVoucherPerChannel_def highestStep_def ex_highest_def
        ex_two_def ex_two_requests_def eval_defs)

lemma ex_two_vouchers: "vouchers (data ex_two) = [ex_lower, ex_highest]"
  by (simp add: ex_lower_def ex_highest_def ex_two_def ex_two_requests_def eval_defs)

lemma ex_two_channel:
  "getChannel ex_two ''0xc1'' =
     Some \<lparr>cs_channelId = ''0xc1'', cs_consumer = ''0xC0'', cs_deposit = 1000,
           cs_totalCharged = 350, cs_expiry = 3600, cs_lastVoucher = Some (Shared 1),
           cs_createdAt = 10, cs_lastActivityAt = 13\<rparr>"
  by (simp add: ex_two_def ex_two_requests_def eval_defs)


theorem claimPayments_idempotent_witness:
  "(''0xc1'', ex_highest) \<in> set (getHighestVoucherPerChannel ex_two)
   \<and> sv_amount ex_highest < claimThreshold ex_svc
   \<and> ''0xfe'' \<in> set (cr_txHashes (claimPayments ex_svc (ex_world 1000 3600) ex_two True))
   \<and> ''0xc1'' \<notin> fst ` set (cr_submitted (claimPayments ex_svc (ex_world 1000 3600)
        (cr_storage (claimPayments ex_svc (ex_world 1000 3600) ex_two True)) True))"
proof -
  have e: "(''0xc1'', ex_highest) \<in> set (getHighestVoucherPerChannel ex_two)"
    by (simp add: ex_two_highest)
  have t: "sv_amount ex_highest < claimThreshold ex_svc"
    by (simp add: ex_highest_def ex_svc_def)
  have thr: "True \<or> claimThreshold ex_svc \<le> sv_amount ex_highest" by simp
  have bal: "getBalance (ex_world 1000 3600) ''0xc1'' \<noteq> Inr 0"
    by (simp add: ex_world_def)
  have ok: "writeClaim (ex_world 1000 3600) ''0xc1'' (sv_amount ex_highest) (sv_nonce ex_highest)
              (sv_signature ex_highest) = Inr ''0xfe''"
    by (simp add: ex_world_def)
  note inst = claimPayments_idempotent[OF e thr bal ok refl]
  show ?thesis using e t inst by blast
qed

theorem claimExpiring_claims_due_channels_witness:
  "ex_lower \<in> set (vouchers (data ex_two)) \<and> sv_channelId ex_lower = ''0xc1''
   \<and> \<not> sv_claimed ex_lower \<and> 0 < sv_amount ex_lower
   \<and> getHighestVoucherPerChannel ex_two = [(''0xc1'', ex_highest)]
   \<and> sv_amount ex_lower < sv_amount ex_highest
   \<and> sv_amount ex_highest < claimThreshold ex_svc
   \<and> (''0xc1'', 350, 2, ''0x51'') \<in> set (cr_submitted
         (claimExpiring ex_svc (ex_world 1000 3600) ex_two 3600 1800000))
   \<and> ''0xc1'' \<notin> fst ` set (cr_submitted
         (claimExpiring ex_svc (ex_world 1000 3600) ex_two 1200 1800000))
   \<and> ''0xc1'' \<notin> fst ` set (cr_submitted
         (claimExpiring ex_svc ((ex_world 1000 3600)\<lparr>getBalance := (\<lambda>c. Inr 0)\<rparr>) ex_two 3600 1800000))"
proof -
  let ?w = "ex_world 1000 3600"
  let ?z = "(ex_world 1000 3600)\<lparr>getBalance := (\<lambda>c. Inr 0)\<rparr>"
  have u1: "ex_lower \<in> set (vouchers (data ex_two))"
    by (simp add: ex_two_vouchers)
  have u2: "sv_channelId ex_lower = ''0xc1''" by (simp add: ex_lower_def ex_highest_def)
  have u3: "\<not> sv_claimed ex_lower" by (simp add: ex_lower_def ex_highest_def)
  have u4: "0 < sv_amount ex_lower" by (simp add: ex_lower_def)
  have lt: "sv_amount ex_lower < sv_amount ex_highest" by (simp add: ex_lower_def ex_highest_def)
  have t: "sv_amount ex_highest < claimThreshold ex_svc"
    by (simp add: ex_highest_def ex_svc_def)
  have bal: "getBalance ?w ''0xc1'' \<noteq> Inr 0" by (simp add: ex_world_def)
  have zero: "getBalance ?z ''0xc1'' = Inr 0" by simp
  note due = claimExpiring_claims_due_channels[where svc=ex_svc and w="?w" and bufferSeconds=3600
      and nowMs=1800000, OF u1 u2 u3 ex_two_channel refl]
  note late = claimExpiring_claims_due_channels[where svc=ex_svc and w="?w" and bufferSeconds=1200
      and nowMs=1800000, OF u1 u2 u3 ex_two_channel refl]
  note empty = claimExpiring_claims_due_channels[where svc=ex_svc and w="?z" and bufferSeconds=3600
      and nowMs=1800000, OF u1 u2 u3 ex_two_channel refl]
  have a: "(''0xc1'', 350, 2, ''0x51'') \<in> set (cr_submitted (claimExpiring ex_svc ?w ex_two 3600 1800000))"
    using due bal u4 by (simp add: ex_two_highest ex_highest_def)
  have b: "''0xc1'' \<notin> fst ` set (cr_submitted (claimExpiring ex_svc ?w ex_two 1200 1800000))"
    using late by (simp add: ex_two_highest)
  have c: "''0xc1'' \<notin> fst ` set (cr_submitted (claimExpiring ex_svc ?z ex_two 3600 1800000))"
    using empty zero u4 by (simp add: ex_two_highest ex_highest_def)
  show ?thesis using u1 u2 u3 u4 ex_two_highest lt t a b c by blast
qed

end
